theory Spec2Isabelle
  imports Complex_Main "HOL-Library.AList"
begin

section \<open>Text\<close>

text \<open>
  Python strings are modelled as \<open>string\<close>, one \<open>char\<close> per code point. The source
  file spells its pictographs as runs of non-ASCII code points (the check mark, the cross
  and the lightning sign as three code points each, the warning sign as six, the chart, the
  megaphone, the envelope and the robot as four, the bullet as three); each is a named
  constant here, an ASCII stand-in with the same number of characters, so that every
  \<open>len\<close> of the source is the \<open>length\<close> of the model.
\<close>

definition newline :: string where
  "newline = [CHR 0x0A]"

definition check_mark :: string where
  "check_mark = ''[v]''"

definition cross_mark :: string where
  "cross_mark = ''[x]''"

definition zap_mark :: string where
  "zap_mark = ''[z]''"

definition warn_mark :: string where
  "warn_mark = ''[warn]''"

definition chart_mark :: string where
  "chart_mark = ''[ch]''"

definition envelope_mark :: string where
  "envelope_mark = ''[en]''"

definition bullet_mark :: string where
  "bullet_mark = ''(*)''"

text \<open>
  \<open>str.capitalize()\<close> on ASCII text: the first character in upper case, the others in
  lower case. The service names the bot handles are ASCII.
\<close>

definition upper_char :: "char \<Rightarrow> char" where
  "upper_char c =
     (case map_of (zip ''abcdefghijklmnopqrstuvwxyz'' ''ABCDEFGHIJKLMNOPQRSTUVWXYZ'') c of
        None \<Rightarrow> c | Some u \<Rightarrow> u)"

definition lower_char :: "char \<Rightarrow> char" where
  "lower_char c =
     (case map_of (zip ''ABCDEFGHIJKLMNOPQRSTUVWXYZ'' ''abcdefghijklmnopqrstuvwxyz'') c of
        None \<Rightarrow> c | Some l \<Rightarrow> l)"

definition capitalize :: "string \<Rightarrow> string" where
  "capitalize s = (case s of [] \<Rightarrow> [] | c # cs \<Rightarrow> upper_char c # map lower_char cs)"

text \<open>\<open>str(n)\<close> of a Python int, as the f-strings of the source format numbers.\<close>

fun str_nat :: "nat \<Rightarrow> string" where
  "str_nat n =
     (if n < 10 then [''0123456789'' ! n]
      else str_nat (n div 10) @ [''0123456789'' ! (n mod 10)])"

declare str_nat.simps [simp del]

definition str_int :: "int \<Rightarrow> string" where
  "str_int k = (if k < 0 then CHR ''-'' # str_nat (nat (- k)) else str_nat (nat k))"

section \<open>The status API\<close>

text \<open>
  The three documents of a status page, typed as the status-page API gives them. A member
  the source reads with \<open>.get\<close> or with \<open>[...]\<close> is optional in the model: \<open>.get\<close>
  takes its default when the member is absent, \<open>[...]\<close> raises \<open>KeyError\<close>.
\<close>

datatype py_error = KeyError | TypeError | IndexError | AttributeError

record status_info =
  st_description :: "string option"
  st_indicator :: "string option"

record incident_update =
  upd_body :: "string option"

record incident =
  inc_id :: "string option"
  inc_name :: "string option"
  inc_status :: "string option"
  inc_updates :: "incident_update list option"

record component =
  comp_name :: "string option"
  comp_status :: "string option"

text \<open>
  What \<open>resp.json()\<close> returns when it returns: a JSON object with the member the code
  looks for present or absent, or a JSON value that is no object (a list, a string, a
  number, null).
\<close>

datatype 'a json = Non_object | Object "'a option"

text \<open>
  The outcome of one \<open>session.get(...)\<close> followed by \<open>resp.json()\<close>: the request raises (a
  network error), or a response arrives with a status code and a body; the body is \<open>None\<close>
  when \<open>resp.json()\<close> raises on it (no JSON, or not served as JSON).
\<close>

datatype 'a http_reply = Net_error | Reply nat "'a json option"

record fetch_replies =
  r_status :: "status_info http_reply"
  r_incidents :: "incident list http_reply"
  r_components :: "component list http_reply"

record service_data =
  sd_status :: "status_info json"
  sd_incidents :: "incident list"
  sd_components :: "component list"

definition SERVICES :: "(string \<times> string) list" where
  "SERVICES =
     [(''vercel'', ''https://vercel.statuspage.io/api/v2''),
      (''cloudflare'', ''https://www.cloudflarestatus.com/api/v2''),
      (''netlify'', ''https://www.netlifystatus.com/api/v2'')]"

text \<open>
  \<open>async with self.session.get(url) as resp: x = await resp.json()\<close>. The status code of
  the response is not looked at: whatever parses is the value read.
\<close>

definition read_json :: "'a http_reply \<Rightarrow> 'a json option" where
  "read_json r = (case r of Net_error \<Rightarrow> None | Reply code b \<Rightarrow> b)"

text \<open>\<open>d.get(key, [])\<close> on what was parsed; \<open>AttributeError\<close> when it is no object.\<close>

definition get_list :: "'a list json \<Rightarrow> py_error + 'a list" where
  "get_list j =
     (case j of Non_object \<Rightarrow> Inl AttributeError
      | Object None \<Rightarrow> Inr []
      | Object (Some xs) \<Rightarrow> Inr xs)"

text \<open>
  \<open>get_service_data\<close>: the list of URLs requested, in order, and the dictionary returned
  (\<open>None\<close> for the unknown service and for any exception). The three requests come first;
  the two \<open>.get\<close> calls that build the dictionary come after them.
\<close>

definition get_service_data :: "fetch_replies \<Rightarrow> string \<Rightarrow> string list \<times> service_data option" where
  "get_service_data w service_name =
     (case map_of SERVICES service_name of
        None \<Rightarrow> ([], None)
      | Some url \<Rightarrow>
          (if url = [] then ([], None)
           else
             (case read_json (r_status w) of
                None \<Rightarrow> ([url @ ''/status.json''], None)
              | Some status \<Rightarrow>
                  (case read_json (r_incidents w) of
                     None \<Rightarrow> ([url @ ''/status.json'', url @ ''/incidents.json''], None)
                   | Some incidents_data \<Rightarrow>
                       (let urls = [url @ ''/status.json'', url @ ''/incidents.json'',
                                    url @ ''/components.json'']
                        in (case read_json (r_components w) of
                              None \<Rightarrow> (urls, None)
                            | Some components_data \<Rightarrow>
                                (case get_list incidents_data of
                                   Inl e \<Rightarrow> (urls, None)
                                 | Inr incidents \<Rightarrow>
                                     (case get_list components_data of
                                        Inl e \<Rightarrow> (urls, None)
                                      | Inr components \<Rightarrow>
                                          (urls,
                                           Some \<lparr>sd_status = status,
                                                 sd_incidents = incidents,
                                                 sd_components = components\<rparr>)))))))))"

section \<open>Rendering a notification\<close>

record embed_field =
  f_name :: string
  f_value :: string
  f_inline :: bool

record embed =
  e_title :: string
  e_description :: string
  e_color :: nat
  e_timestamp :: "nat option"
  e_fields :: "embed_field list"
  e_footer :: "string option"

text \<open>The truncation of a long update: \<open>update[:200] + "..."\<close> when \<open>len(update) > 200\<close>.\<close>

definition truncate_update :: "string \<Rightarrow> string" where
  "truncate_update update = (if length update > 200 then take 200 update @ ''...'' else update)"

text \<open>
  The text one incident adds to \<open>incident_text\<close> in the loop of \<open>create_status_embed\<close>.
  \<open>incident.get('incident_updates', [{}])[0]\<close> raises \<open>IndexError\<close> on an empty list of
  updates.
\<close>

definition incident_block :: "incident \<Rightarrow> py_error + string" where
  "incident_block i =
     (let name = (case inc_name i of None \<Rightarrow> ''Unnamed incident'' | Some n \<Rightarrow> n);
          status = (case inc_status i of None \<Rightarrow> ''unknown'' | Some s \<Rightarrow> s)
      in (case (case inc_updates i of None \<Rightarrow> [\<lparr>upd_body = None\<rparr>] | Some us \<Rightarrow> us) of
            [] \<Rightarrow> Inl IndexError
          | u # us \<Rightarrow>
              (let update = (case upd_body u of None \<Rightarrow> [] | Some b \<Rightarrow> b);
                   head = ''**'' @ name @ ''** ('' @ status @ '')'' @ newline
               in if update \<noteq> []
                  then Inr (head @ truncate_update update @ newline @ newline)
                  else Inr head)))"

fun incident_loop :: "string \<Rightarrow> incident list \<Rightarrow> py_error + string" where
  "incident_loop incident_text [] = Inr incident_text"
| "incident_loop incident_text (i # rest) =
     (case incident_block i of
        Inl e \<Rightarrow> Inl e
      | Inr t \<Rightarrow> incident_loop (incident_text @ t) rest)"

definition component_line :: "component \<Rightarrow> py_error + string" where
  "component_line c =
     (case comp_name c of
        None \<Rightarrow> Inl KeyError
      | Some n \<Rightarrow>
          (case comp_status c of
             None \<Rightarrow> Inl KeyError
           | Some s \<Rightarrow> Inr (bullet_mark @ '' '' @ n @ '': '' @ s @ newline)))"

fun component_loop :: "string \<Rightarrow> component list \<Rightarrow> py_error + string" where
  "component_loop comp_text [] = Inr comp_text"
| "component_loop comp_text (c # rest) =
     (case component_line c of
        Inl e \<Rightarrow> Inl e
      | Inr t \<Rightarrow> component_loop (comp_text @ t) rest)"

text \<open>The "Recent Incidents" field, or the placeholder when there is no incident.\<close>

definition incidents_field :: "incident list \<Rightarrow> py_error + embed_field" where
  "incidents_field all_incidents =
     (let incidents = take 3 all_incidents
      in if incidents \<noteq> []
         then (case incident_loop [] incidents of
                 Inl e \<Rightarrow> Inl e
               | Inr incident_text \<Rightarrow>
                   Inr \<lparr>f_name = ''Recent Incidents'', f_value = incident_text, f_inline = False\<rparr>)
         else Inr \<lparr>f_name = ''Incidents'', f_value = ''No current incidents'', f_inline = False\<rparr>)"

definition components_field :: "component list \<Rightarrow> py_error + embed_field" where
  "components_field components =
     (let bad_components = filter (\<lambda>c. comp_status c \<noteq> Some ''operational'') components
      in if bad_components \<noteq> []
         then (case component_loop [] (take 5 bad_components) of
                 Inl e \<Rightarrow> Inl e
               | Inr comp_text \<Rightarrow>
                   Inr \<lparr>f_name = ''Affected Components'', f_value = comp_text, f_inline = False\<rparr>)
         else Inr \<lparr>f_name = ''Components'', f_value = ''All systems operational'',
                    f_inline = False\<rparr>)"

text \<open>
  \<open>create_status_embed\<close>, with the wall clock read passed in as \<open>now\<close>. It raises when
  the status document has not the members \<open>status.description\<close> and \<open>status.indicator\<close>,
  and where the two loops raise.
\<close>

definition create_status_embed :: "nat \<Rightarrow> string \<Rightarrow> service_data \<Rightarrow> py_error + embed" where
  "create_status_embed now service_name data =
     (case sd_status data of
        Non_object \<Rightarrow> Inl TypeError
      | Object None \<Rightarrow> Inl KeyError
      | Object (Some status) \<Rightarrow>
          (case st_description status of
             None \<Rightarrow> Inl KeyError
           | Some description \<Rightarrow>
               (case st_indicator status of
                  None \<Rightarrow> Inl KeyError
                | Some indicator \<Rightarrow>
                    (let color = (if indicator = ''none'' then (0x00ff00 :: nat)
                                  else if indicator = ''minor'' then 0xffff00 else 0xff0000)
                     in (case incidents_field (sd_incidents data) of
                           Inl e \<Rightarrow> Inl e
                         | Inr f1 \<Rightarrow>
                             (case components_field (sd_components data) of
                                Inl e \<Rightarrow> Inl e
                              | Inr f2 \<Rightarrow>
                                  Inr \<lparr>e_title = capitalize service_name @ '' Status'',
                                       e_description = ''**Overall Status:** '' @ description,
                                       e_color = color,
                                       e_timestamp = Some now,
                                       e_fields = [f1, f2],
                                       e_footer = Some ''Last updated''\<rparr>))))))"

section \<open>The subscription table\<close>

text \<open>
  One row of the table \<open>webhooks\<close>, column by column. \<open>enabled\<close> is an SQL integer:
  the code stores \<open>1\<close> at setup and a Python \<open>bool\<close> (stored as \<open>1\<close> or \<open>0\<close>) at a toggle.
  The table is the list of its rows in the order of a full scan; an \<open>UPDATE\<close> changes
  a row in place and \<open>INSERT OR REPLACE\<close> deletes the row with the same primary key and
  appends the new one.
\<close>

record webhook_row =
  guild_id :: int
  channel_id :: int
  webhook_url :: string
  service :: string
  ping_role_id :: "int option"
  enabled :: int
  last_incident_id :: "string option"

type_synonym webhooks = "webhook_row list"

definition row_key :: "webhook_row \<Rightarrow> int \<times> string" where
  "row_key r = (guild_id r, service r)"

text \<open>\<open>SELECT * FROM webhooks WHERE enabled = 1\<close>\<close>

definition select_enabled :: "webhooks \<Rightarrow> webhook_row list" where
  "select_enabled db = filter (\<lambda>r. enabled r = 1) db"

text \<open>\<open>UPDATE webhooks SET last_incident_id = ? WHERE guild_id = ? AND service = ?\<close>\<close>

definition update_last_incident :: "string option \<Rightarrow> int \<Rightarrow> string \<Rightarrow> webhooks \<Rightarrow> webhooks" where
  "update_last_incident v g s db =
     map (\<lambda>r. if guild_id r = g \<and> service r = s then r\<lparr>last_incident_id := v\<rparr> else r) db"

text \<open>\<open>SELECT enabled FROM webhooks WHERE guild_id = ? AND service = ?\<close>, \<open>fetchone()\<close>\<close>

definition select_one :: "int \<Rightarrow> string \<Rightarrow> webhooks \<Rightarrow> webhook_row option" where
  "select_one g s db = find (\<lambda>r. guild_id r = g \<and> service r = s) db"

text \<open>\<open>UPDATE webhooks SET enabled = ? WHERE guild_id = ? AND service = ?\<close>\<close>

definition update_enabled :: "int \<Rightarrow> int \<Rightarrow> string \<Rightarrow> webhooks \<Rightarrow> webhooks" where
  "update_enabled v g s db =
     map (\<lambda>r. if guild_id r = g \<and> service r = s then r\<lparr>enabled := v\<rparr> else r) db"

text \<open>\<open>INSERT OR REPLACE INTO webhooks (...) VALUES (...)\<close>, all seven columns given.\<close>

definition insert_or_replace :: "webhook_row \<Rightarrow> webhooks \<Rightarrow> webhooks" where
  "insert_or_replace new db = filter (\<lambda>r. row_key r \<noteq> row_key new) db @ [new]"

text \<open>\<open>DELETE FROM webhooks WHERE guild_id = ? AND service = ?\<close>\<close>

definition delete_row :: "int \<Rightarrow> string \<Rightarrow> webhooks \<Rightarrow> webhooks" where
  "delete_row g s db = filter (\<lambda>r. \<not> (guild_id r = g \<and> service r = s)) db"

section \<open>The poller\<close>

record webhook_data =
  wd_embeds :: "embed list"
  wd_content :: "string option"

text \<open>
  The outcome of \<open>session.post(webhook_url, json=webhook_data)\<close>: the request raises, or
  a response arrives with its status code.
\<close>

datatype post_reply = Post_error | Post_status nat

text \<open>
  What the tick does to the outside, in order: the requests to the status API, the POST
  to a webhook with the reply it got, and the \<open>UPDATE\<close> of a marker with its three
  parameters. Console output is left out.
\<close>

datatype poll_event =
    Http_get string
  | Http_post string webhook_data post_reply
  | Sql_update "string option" int string

text \<open>
  What the outside answers while one subscription is processed: the three status reads,
  the clock and the reply to the POST.
\<close>

record world =
  w_fetch :: fetch_replies
  w_now :: nat
  w_post :: post_reply

text \<open>
  The payload of the POST: the embed, and the ping when \<open>ping_role_id\<close> is set (\<open>if
  ping_role_id:\<close> holds for an id that is neither \<open>None\<close> nor \<open>0\<close>).
\<close>

definition webhook_payload :: "webhook_row \<Rightarrow> embed \<Rightarrow> webhook_data" where
  "webhook_payload config status_embed =
     \<lparr>wd_embeds = [status_embed],
      wd_content =
        (case ping_role_id config of
           None \<Rightarrow> None
         | Some role \<Rightarrow>
             if role \<noteq> 0
             then Some (''<@&'' @ str_int role @ ''> '' @ capitalize (service config) @
                        '' status update!'')
             else None)\<rparr>"

text \<open>
  The body of the loop of \<open>check_and_post_incidents\<close> for one row \<open>config\<close> read at
  the start of the tick: the events of the iteration and the table after it, or the
  exception that leaves the loop (only \<open>create_status_embed\<close> stands outside the
  \<open>try\<close>).
\<close>

definition process_config :: "world \<Rightarrow> webhook_row \<Rightarrow> webhooks \<Rightarrow> poll_event list \<times> (py_error + webhooks)" where
  "process_config w config db =
     (case get_service_data (w_fetch w) (service config) of
        (urls, None) \<Rightarrow> (map Http_get urls, Inr db)
      | (urls, Some data) \<Rightarrow>
          (case sd_incidents data of
             [] \<Rightarrow> (map Http_get urls, Inr db)
           | latest_incident # others \<Rightarrow>
               (let latest_incident_id = inc_id latest_incident
                in if latest_incident_id \<noteq> last_incident_id config
                   then (case create_status_embed (w_now w) (service config) data of
                           Inl e \<Rightarrow> (map Http_get urls, Inl e)
                         | Inr status_embed \<Rightarrow>
                             (let post = Http_post (webhook_url config)
                                           (webhook_payload config status_embed) (w_post w)
                              in if w_post w = Post_status 204
                                 then (map Http_get urls @
                                       [post, Sql_update latest_incident_id (guild_id config)
                                                (service config)],
                                       Inr (update_last_incident latest_incident_id
                                              (guild_id config) (service config) db))
                                 else (map Http_get urls @ [post], Inr db)))
                   else (map Http_get urls, Inr db))))"

datatype tick_end = Completed | Raised py_error

text \<open>
  The loop over the rows selected at the start of the tick; \<open>world_at i\<close> is what the
  outside answers during iteration \<open>i\<close>. The log keeps, for each iteration entered, the
  row it processes and its events.
\<close>

fun run_configs :: "(nat \<Rightarrow> world) \<Rightarrow> nat \<Rightarrow> webhook_row list \<Rightarrow> webhooks \<Rightarrow>
    (webhook_row \<times> poll_event list) list \<times> webhooks \<times> tick_end" where
  "run_configs world_at i [] db = ([], db, Completed)"
| "run_configs world_at i (config # rest) db =
     (case process_config (world_at i) config db of
        (evs, Inl e) \<Rightarrow> ([(config, evs)], db, Raised e)
      | (evs, Inr db') \<Rightarrow>
          (case run_configs world_at (Suc i) rest db' of
             (entries, db'', fin) \<Rightarrow> ((config, evs) # entries, db'', fin)))"

definition check_and_post_incidents :: "(nat \<Rightarrow> world) \<Rightarrow> webhooks \<Rightarrow>
    (webhook_row \<times> poll_event list) list \<times> webhooks \<times> tick_end" where
  "check_and_post_incidents world_at db = run_configs world_at 0 (select_enabled db) db"

text \<open>
  Three readings of the log, for the statements below: the \<open>UPDATE\<close>s of one key, the
  POSTs, and the POSTs that were answered 204; and the events of iteration \<open>i\<close>, none
  when the loop was left before it.
\<close>

definition is_update_for :: "int \<Rightarrow> string \<Rightarrow> poll_event \<Rightarrow> bool" where
  "is_update_for g s e = (case e of Sql_update v g' s' \<Rightarrow> g' = g \<and> s' = s | _ \<Rightarrow> False)"

definition is_post :: "poll_event \<Rightarrow> bool" where
  "is_post e = (case e of Http_post u d r \<Rightarrow> True | _ \<Rightarrow> False)"

definition is_accepted_post :: "poll_event \<Rightarrow> bool" where
  "is_accepted_post e = (case e of Http_post u d r \<Rightarrow> r = Post_status 204 | _ \<Rightarrow> False)"

definition iteration_events :: "(webhook_row \<times> poll_event list) list \<Rightarrow> nat \<Rightarrow> poll_event list" where
  "iteration_events entries i = (if i < length entries then snd (entries ! i) else [])"

section \<open>Commands\<close>

record channel =
  ch_id :: int
  ch_can_send :: bool

text \<open>\<open>channel.mention\<close> and \<open>role.mention\<close>, as the client library forms them.\<close>

definition channel_mention :: "channel \<Rightarrow> string" where
  "channel_mention c = ''<#'' @ str_int (ch_id c) @ ''>''"

definition role_mention :: "int \<Rightarrow> string" where
  "role_mention role = ''<@&'' @ str_int role @ ''>''"

text \<open>
  How one \<open>channel.send\<close> ends: it returns, or it raises \<open>discord.Forbidden\<close>, another
  \<open>discord.HTTPException\<close> with its status, or some other exception.
\<close>

datatype send_outcome = Sent | Forbidden | Http_exception nat | Other_exception

datatype outgoing = Plain string | Rich embed

text \<open>
  What a command does to the outside, in order: a response to the interaction (with its
  \<open>ephemeral\<close> flag), a deferral, a follow-up, a send to a channel with how it ended, a
  sleep, and the creation of a webhook.
\<close>

datatype create_outcome = Created string | Create_forbidden | Create_failed string

datatype cmd_event =
    Respond string bool
  | Defer bool
  | Followup string
  | Followup_embed embed
  | Channel_send int outgoing send_outcome
  | Sleep real
  | Create_webhook int string create_outcome

subsection \<open>The owner check and the error handler\<close>

text \<open>The predicate of \<open>is_owner()\<close>.\<close>

definition is_owner :: "int \<Rightarrow> int \<Rightarrow> bool" where
  "is_owner OWNER_ID user_id = (user_id = OWNER_ID)"

datatype app_command_error = CheckFailure | CommandNotFound | Other_command_error

definition owner_commands :: "string list" where
  "owner_commands = [''sendmessage'', ''sendembed'', ''broadcast'', ''botstats'', ''multisend'',
                     ''spamchannel'']"

text \<open>
  \<open>on_app_command_error\<close>, for the command named in the interaction; \<open>is_done\<close> is
  \<open>interaction.response.is_done()\<close>.
\<close>

definition on_app_command_error :: "string \<Rightarrow> app_command_error \<Rightarrow> bool \<Rightarrow> cmd_event list" where
  "on_app_command_error command_name error is_done =
     (if error = CheckFailure
      then (if command_name \<in> set owner_commands
            then [Respond (cross_mark @ '' This command is restricted to the bot owner only.'') True]
            else [Respond (cross_mark @ '' You don't have permission to use this command.'') True])
      else (if \<not> is_done
            then [Respond (cross_mark @ '' An error occurred while executing the command.'') True]
            else []))"

text \<open>
  The commands the source registers with \<open>@bot.tree.command(name=...)\<close>, in the order of
  the file, each with whether \<open>@is_owner()\<close> stands on it. \<open>bot_stats\<close> carries
  \<open>@is_owner()\<close> but no \<open>@bot.tree.command\<close>: it is not in the tree.
\<close>

definition command_tree :: "(string \<times> bool) list" where
  "command_tree =
     [(''sendmessage'', True), (''sendembed'', True), (''broadcast'', True),
      (''multisend'', True), (''checkstatus'', False), (''setupwebhook'', False),
      (''removewebhook'', False), (''listwebhooks'', False), (''togglewebhook'', False)]"

text \<open>
  How the command tree of the client library handles an interaction: a name that is not
  in the tree is a \<open>CommandNotFound\<close> error, a failed check is a \<open>CheckFailure\<close> and
  the callback does not run; both go to the error handler. \<open>callback\<close> gives the events
  of the command's own body.
\<close>

definition invoke :: "int \<Rightarrow> (string \<Rightarrow> cmd_event list) \<Rightarrow> string \<Rightarrow> int \<Rightarrow> cmd_event list" where
  "invoke OWNER_ID callback command_name user_id =
     (case map_of command_tree command_name of
        None \<Rightarrow> on_app_command_error command_name CommandNotFound False
      | Some owner_only \<Rightarrow>
          (if owner_only \<and> \<not> is_owner OWNER_ID user_id
           then on_app_command_error command_name CheckFailure False
           else callback command_name))"

subsection \<open>sendmessage\<close>

text \<open>
  The loop \<open>for i in range(count)\<close> of \<open>send_message\<close>, over the indices left;
  \<open>outcome i\<close> is how the send of iteration \<open>i\<close> ends. The state is the events so far,
  \<open>sent_count\<close> and \<open>failed_count\<close>.
\<close>

fun send_message_loop :: "(nat \<Rightarrow> send_outcome) \<Rightarrow> channel \<Rightarrow> string \<Rightarrow> int \<Rightarrow> real \<Rightarrow>
    nat list \<Rightarrow> cmd_event list \<times> int \<times> int \<Rightarrow> cmd_event list \<times> int \<times> int" where
  "send_message_loop outcome channel message count delay [] st = st"
| "send_message_loop outcome channel message count delay (i # rest) (evs, sent_count, failed_count) =
     (case outcome i of
        Sent \<Rightarrow>
          send_message_loop outcome channel message count delay rest
            (evs @ [Channel_send (ch_id channel) (Plain message) Sent] @
               (if delay > 0 \<and> int i < count - 1 then [Sleep delay] else []),
             sent_count + 1, failed_count)
      | Forbidden \<Rightarrow>
          (evs @ [Channel_send (ch_id channel) (Plain message) Forbidden],
           sent_count, failed_count + 1)
      | Http_exception status \<Rightarrow>
          send_message_loop outcome channel message count delay rest
            (evs @ [Channel_send (ch_id channel) (Plain message) (Http_exception status)] @
               (if status = 429 then [Sleep 1] else []),
             sent_count, failed_count + 1)
      | Other_exception \<Rightarrow>
          send_message_loop outcome channel message count delay rest
            (evs @ [Channel_send (ch_id channel) (Plain message) Other_exception],
             sent_count, failed_count + 1))"

definition send_message :: "(nat \<Rightarrow> send_outcome) \<Rightarrow> channel \<Rightarrow> string \<Rightarrow> int \<Rightarrow> real \<Rightarrow> cmd_event list" where
  "send_message outcome channel message count delay =
     (if count < 1 \<or> count > 50
      then [Respond (cross_mark @ '' Count must be between 1 and 50.'') True]
      else if delay < 0
      then [Respond (cross_mark @ '' Delay cannot be negative.'') True]
      else
        (case send_message_loop outcome channel message count delay [0..<nat count] ([], 0, 0) of
           (evs, sent_count, failed_count) \<Rightarrow>
             [Defer True] @ evs @
             [Followup
                (check_mark @ '' Sent '' @ str_int sent_count @ ''/'' @ str_int count @
                 '' messages to '' @ channel_mention channel @
                 (if failed_count > 0
                  then newline @ cross_mark @ '' Failed: '' @ str_int failed_count @ '' messages''
                  else []) @
                 (if delay = 0 \<and> count > 1
                  then newline @ zap_mark @ '' Ultra-fast mode used'' else []))]))"

subsection \<open>multisend\<close>

record guild =
  g_name :: string
  g_system_channel :: "channel option"
  g_text_channels :: "channel list"

text \<open>The channel a bulk command sends to: the system channel if the bot may send there,
  else the first text channel where it may.\<close>

definition find_target_channel :: "guild \<Rightarrow> channel option" where
  "find_target_channel g =
     (case g_system_channel g of
        None \<Rightarrow> find ch_can_send (g_text_channels g)
      | Some c \<Rightarrow> if ch_can_send c then Some c else find ch_can_send (g_text_channels g))"

text \<open>\<open>server_ids.split(',')\<close>\<close>

fun split_comma :: "string \<Rightarrow> string list" where
  "split_comma [] = [[]]"
| "split_comma (c # cs) =
     (if c = CHR '','' then [] # split_comma cs
      else (case split_comma cs of [] \<Rightarrow> [[c]] | p # ps \<Rightarrow> (c # p) # ps))"

text \<open>
  The list comprehension that parses the ids; \<open>py_int s\<close> stands for the builtin
  \<open>int(s.strip())\<close>, \<open>None\<close> where it raises \<open>ValueError\<close>.
\<close>

definition parse_guild_ids :: "(string \<Rightarrow> int option) \<Rightarrow> string \<Rightarrow> int list option" where
  "parse_guild_ids py_int server_ids = those (map py_int (split_comma server_ids))"

text \<open>What the outside answers at one send of a bulk command: how the send ends, and the clock.\<close>

record send_world =
  sw_outcome :: send_outcome
  sw_now :: nat

definition multi_send_payload :: "guild \<Rightarrow> string \<Rightarrow> bool \<Rightarrow> int \<Rightarrow> nat \<Rightarrow> nat \<Rightarrow> outgoing" where
  "multi_send_payload g message embed_format count i now =
     (if embed_format
      then Rich \<lparr>e_title = envelope_mark @ '' Multi-Server Message'',
                 e_description = message,
                 e_color = 0x00ff99,
                 e_timestamp = Some now,
                 e_fields = [],
                 e_footer = Some (''Sent to '' @ g_name g @ '' '' @
                                  (if count > 1
                                   then ''('' @ str_int (int i + 1) @ ''/'' @ str_int count @ '')''
                                   else []))\<rparr>
      else Plain message)"

text \<open>
  The inner loop of \<open>multi_send\<close> for one guild. The state is the events so far,
  \<open>sent_to_guild\<close>, \<open>failed_to_guild\<close>, \<open>total_sent\<close> and \<open>total_failed\<close>. No outcome
  leaves the loop: \<open>discord.Forbidden\<close> is an \<open>HTTPException\<close> and is counted like one.
\<close>

fun multi_send_loop :: "(nat \<Rightarrow> send_world) \<Rightarrow> guild \<Rightarrow> channel \<Rightarrow> string \<Rightarrow> bool \<Rightarrow> int \<Rightarrow> real \<Rightarrow>
    nat list \<Rightarrow> cmd_event list \<times> int \<times> int \<times> int \<times> int \<Rightarrow> cmd_event list \<times> int \<times> int \<times> int \<times> int" where
  "multi_send_loop world_at g target message embed_format count delay [] st = st"
| "multi_send_loop world_at g target message embed_format count delay (i # rest)
     (evs, sent_to_guild, failed_to_guild, total_sent, total_failed) =
     (let send = Channel_send (ch_id target)
                   (multi_send_payload g message embed_format count i (sw_now (world_at i)))
                   (sw_outcome (world_at i))
      in (case sw_outcome (world_at i) of
            Sent \<Rightarrow>
              multi_send_loop world_at g target message embed_format count delay rest
                (evs @ [send] @ (if delay > 0 \<and> int i < count - 1 then [Sleep delay] else []),
                 sent_to_guild + 1, failed_to_guild, total_sent + 1, total_failed)
          | Forbidden \<Rightarrow>
              multi_send_loop world_at g target message embed_format count delay rest
                (evs @ [send], sent_to_guild, failed_to_guild + 1, total_sent, total_failed + 1)
          | Http_exception status \<Rightarrow>
              multi_send_loop world_at g target message embed_format count delay rest
                (evs @ [send] @ (if status = 429 then [Sleep 1] else []),
                 sent_to_guild, failed_to_guild + 1, total_sent, total_failed + 1)
          | Other_exception \<Rightarrow>
              multi_send_loop world_at g target message embed_format count delay rest
                (evs @ [send], sent_to_guild, failed_to_guild + 1, total_sent, total_failed + 1)))"

record multi_state =
  ms_events :: "cmd_event list"
  ms_results :: "(int \<times> string) list"
  ms_total_sent :: int
  ms_total_failed :: int

text \<open>
  The loop \<open>for guild_id in guild_ids\<close>; \<open>p\<close> is the position of \<open>gid\<close> (the source's \<open>guild_id\<close>) in the
  list, \<open>n\<close> is \<open>len(guild_ids)\<close>, \<open>get_guild\<close> is \<open>bot.get_guild\<close> and
  \<open>world_at p i\<close> answers send \<open>i\<close> to the guild at position \<open>p\<close>. \<open>results\<close> is a
  dictionary in insertion order: a key written again keeps its place.
\<close>

fun multi_send_guilds :: "(int \<Rightarrow> guild option) \<Rightarrow> (nat \<Rightarrow> nat \<Rightarrow> send_world) \<Rightarrow> string \<Rightarrow> bool \<Rightarrow> int \<Rightarrow>
    real \<Rightarrow> nat \<Rightarrow> nat \<Rightarrow> int list \<Rightarrow> multi_state \<Rightarrow> multi_state" where
  "multi_send_guilds get_guild world_at message embed_format count delay n p [] st = st"
| "multi_send_guilds get_guild world_at message embed_format count delay n p (gid # rest) st =
     (case get_guild gid of
        None \<Rightarrow>
          multi_send_guilds get_guild world_at message embed_format count delay n (Suc p) rest
            (st\<lparr>ms_results := AList.update gid
                                (cross_mark @ '' Server not found or bot not in server'')
                                (ms_results st),
                ms_total_failed := ms_total_failed st + count\<rparr>)
      | Some g \<Rightarrow>
          (case find_target_channel g of
             None \<Rightarrow>
               multi_send_guilds get_guild world_at message embed_format count delay n (Suc p) rest
                 (st\<lparr>ms_results := AList.update gid
                                     (cross_mark @ '' No accessible channel in '' @ g_name g)
                                     (ms_results st),
                     ms_total_failed := ms_total_failed st + count\<rparr>)
           | Some target \<Rightarrow>
               (case multi_send_loop (world_at p) g target message embed_format count delay
                       [0..<nat count]
                       (ms_events st, 0, 0, ms_total_sent st, ms_total_failed st) of
                  (evs, sent_to_guild, failed_to_guild, total_sent, total_failed) \<Rightarrow>
                    multi_send_guilds get_guild world_at message embed_format count delay n (Suc p) rest
                      \<lparr>ms_events = evs @ (if delay > 0 \<and> n > 1 then [Sleep (3 / 10)] else []),
                       ms_results =
                         AList.update gid
                           (if sent_to_guild = count
                            then check_mark @ '' '' @ g_name g @ '': '' @ str_int sent_to_guild @
                                 ''/'' @ str_int count @ '' sent''
                            else warn_mark @ '' '' @ g_name g @ '': '' @ str_int sent_to_guild @
                                 ''/'' @ str_int count @ '' sent, '' @ str_int failed_to_guild @
                                 '' failed'')
                           (ms_results st),
                       ms_total_sent = total_sent,
                       ms_total_failed = total_failed\<rparr>)))"

text \<open>\<open>[result_msg[i:i+1900] for i in range(0, len(result_msg), 1900)]\<close>, for any step width.\<close>

function parts_of :: "nat \<Rightarrow> string \<Rightarrow> string list" where
  "parts_of k s = (if k = 0 \<or> s = [] then [] else take k s # parts_of k (drop k s))"
  by pat_completeness auto
termination
  by (relation "measure (\<lambda>(k, s). length s)") auto

declare parts_of.simps [simp del]

definition multi_send_report :: "multi_state \<Rightarrow> int \<Rightarrow> real \<Rightarrow> string" where
  "multi_send_report st count delay =
     chart_mark @ '' **Multi-Server Send Results:**'' @ newline @
     ''Total sent: '' @ str_int (ms_total_sent st) @ '' | Total failed: '' @
       str_int (ms_total_failed st) @ newline @ newline @
     concat (map (\<lambda>(gid, result). [CHR 0x60] @ str_int gid @ [CHR 0x60] @ '' - '' @
                                         result @ newline) (ms_results st)) @
     (if delay = 0 \<and> count > 1 then newline @ zap_mark @ '' Ultra-fast mode used'' else [])"

definition multi_send :: "(string \<Rightarrow> int option) \<Rightarrow> (int \<Rightarrow> guild option) \<Rightarrow> (nat \<Rightarrow> nat \<Rightarrow> send_world) \<Rightarrow>
    string \<Rightarrow> string \<Rightarrow> bool \<Rightarrow> int \<Rightarrow> real \<Rightarrow> cmd_event list" where
  "multi_send py_int get_guild world_at server_ids message embed_format count delay =
     (if count < 1 \<or> count > 20
      then [Respond (cross_mark @ '' Count must be between 1 and 20.'') True]
      else if delay < 0
      then [Respond (cross_mark @ '' Delay cannot be negative.'') True]
      else
        (case parse_guild_ids py_int server_ids of
           None \<Rightarrow>
             [Respond (cross_mark @ '' Invalid server ID format. Use comma-separated numbers.'') True]
         | Some guild_ids \<Rightarrow>
             (if length guild_ids > 20
              then [Respond (cross_mark @ '' Maximum 20 servers allowed per command.'') True]
              else
                (let st = multi_send_guilds get_guild world_at message embed_format count delay
                            (length guild_ids) 0 guild_ids
                            \<lparr>ms_events = [], ms_results = [], ms_total_sent = 0,
                             ms_total_failed = 0\<rparr>;
                     result_msg = multi_send_report st count delay
                 in [Defer True] @ ms_events st @
                    (if length result_msg > 2000
                     then map Followup (parts_of 1900 result_msg)
                     else [Followup result_msg])))))"

subsection \<open>setupwebhook, removewebhook, togglewebhook\<close>

text \<open>
  \<open>setup_webhook\<close>, called in guild \<open>guild\<close> by a user who has the permission
  \<open>manage_webhooks\<close> or has it not; \<open>created\<close> is how \<open>channel.create_webhook\<close> ends
  and \<open>ping_role\<close> is the id of the role given, if one is.
\<close>

definition setup_webhook :: "bool \<Rightarrow> create_outcome \<Rightarrow> int \<Rightarrow> channel \<Rightarrow> string \<Rightarrow> int option \<Rightarrow> webhooks \<Rightarrow>
    cmd_event list \<times> webhooks" where
  "setup_webhook manage_webhooks created guild channel service_name ping_role db =
     (if \<not> manage_webhooks
      then ([Respond (cross_mark @ '' You need 'Manage Webhooks' permission to use this command.'')
               True], db)
      else
        (let creation = Create_webhook (ch_id channel) (capitalize service_name @ '' Status Bot'')
                          created
         in (case created of
               Created url \<Rightarrow>
                 ([Defer False, creation,
                   Followup_embed
                     \<lparr>e_title = check_mark @ '' Webhook Setup Complete'',
                      e_description = ''Auto-posting enabled for **'' @ capitalize service_name @
                                      ''** in '' @ channel_mention channel,
                      e_color = 0x00ff00,
                      e_timestamp = None,
                      e_fields =
                        (case ping_role of
                           None \<Rightarrow> []
                         | Some role \<Rightarrow>
                             [\<lparr>f_name = ''Ping Role'', f_value = role_mention role,
                               f_inline = True\<rparr>]) @
                        [\<lparr>f_name = ''Check Interval'', f_value = ''Every 5 minutes'',
                          f_inline = True\<rparr>],
                      e_footer = None\<rparr>],
                  insert_or_replace
                    \<lparr>guild_id = guild, channel_id = ch_id channel, webhook_url = url,
                     service = service_name, ping_role_id = ping_role, enabled = 1,
                     last_incident_id = None\<rparr> db)
             | Create_forbidden \<Rightarrow>
                 ([Defer False, creation,
                   Followup (cross_mark @
                             '' I don't have permission to create webhooks in that channel.'')],
                  db)
             | Create_failed msg \<Rightarrow>
                 ([Defer False, creation,
                   Followup (cross_mark @ '' Error setting up webhook: '' @ msg)], db))))"

definition remove_webhook :: "bool \<Rightarrow> int \<Rightarrow> string \<Rightarrow> webhooks \<Rightarrow> cmd_event list \<times> webhooks" where
  "remove_webhook manage_webhooks guild service_name db =
     (if \<not> manage_webhooks
      then ([Respond (cross_mark @ '' You need 'Manage Webhooks' permission to use this command.'')
               True], db)
      else if delete_row guild service_name db \<noteq> db
      then ([Respond (check_mark @ '' Removed auto-posting for '' @ capitalize service_name) False],
            delete_row guild service_name db)
      else ([Respond (cross_mark @ '' No webhook found for '' @ capitalize service_name) False], db))"

text \<open>
  \<open>toggle_webhook\<close>. \<open>not result[0]\<close> on the integer column is true exactly for \<open>0\<close>;
  the new value is stored as \<open>1\<close> or \<open>0\<close>.
\<close>

definition toggle_webhook :: "bool \<Rightarrow> int \<Rightarrow> string \<Rightarrow> webhooks \<Rightarrow> cmd_event list \<times> webhooks" where
  "toggle_webhook manage_webhooks guild service_name db =
     (if \<not> manage_webhooks
      then ([Respond (cross_mark @ '' You need 'Manage Webhooks' permission to use this command.'')
               True], db)
      else
        (case select_one guild service_name db of
           None \<Rightarrow>
             ([Respond (cross_mark @ '' No webhook found for '' @ capitalize service_name) False], db)
         | Some result \<Rightarrow>
             (let new_status = (enabled result = 0)
              in ([Respond (check_mark @ '' '' @ capitalize service_name @ '' webhook has been '' @
                            (if new_status then ''enabled'' else ''disabled'')) False],
                  update_enabled (if new_status then 1 else 0) guild service_name db))))"

section \<open>Readings of the events, and example inputs\<close>

definition long_update :: string where
  "long_update = replicate 250 (CHR ''a'')"

definition example_incident :: incident where
  "example_incident =
     \<lparr>inc_id = Some ''inc-42'', inc_name = Some ''API errors'',
      inc_status = Some ''investigating'',
      inc_updates = Some [\<lparr>upd_body = Some long_update\<rparr>]\<rparr>"

definition example_data :: service_data where
  "example_data =
     \<lparr>sd_status = Object (Some \<lparr>st_description = Some ''Minor Service Outage'',
                                 st_indicator = Some ''minor''\<rparr>),
      sd_incidents = [example_incident],
      sd_components = []\<rparr>"

definition example_embed :: embed where
  "example_embed =
     \<lparr>e_title = ''Vercel Status'',
      e_description = ''**Overall Status:** Minor Service Outage'',
      e_color = 0xffff00,
      e_timestamp = Some 0,
      e_fields =
        [\<lparr>f_name = ''Recent Incidents'',
          f_value = ''**API errors** (investigating)'' @ newline @
                    replicate 200 (CHR ''a'') @ ''...'' @ newline @ newline,
          f_inline = False\<rparr>,
         \<lparr>f_name = ''Components'', f_value = ''All systems operational'', f_inline = False\<rparr>],
      e_footer = Some ''Last updated''\<rparr>"

definition example_status :: "status_info json" where
  "example_status = Object (Some \<lparr>st_description = Some ''Minor Service Outage'',
                                   st_indicator = Some ''minor''\<rparr>)"

definition replies_components_503 :: fetch_replies where
  "replies_components_503 =
     \<lparr>r_status = Reply 200 (Some example_status),
      r_incidents = Reply 200 (Some (Object (Some [example_incident]))),
      r_components = Reply 503 (Some (Object None))\<rparr>"

definition example_replies :: fetch_replies where
  "example_replies =
     \<lparr>r_status = Reply 200 (Some example_status),
      r_incidents = Reply 200 (Some (Object (Some [example_incident]))),
      r_components = Reply 200 (Some (Object (Some [])))\<rparr>"

definition vercel_urls :: "string list" where
  "vercel_urls = [''https://vercel.statuspage.io/api/v2/status.json'',
                  ''https://vercel.statuspage.io/api/v2/incidents.json'',
                  ''https://vercel.statuspage.io/api/v2/components.json'']"

definition world_accepting :: world where
  "world_accepting = \<lparr>w_fetch = example_replies, w_now = 0, w_post = Post_status 204\<rparr>"

definition world_failing :: world where
  "world_failing = \<lparr>w_fetch = example_replies, w_now = 0, w_post = Post_status 500\<rparr>"

definition example_row :: webhook_row where
  "example_row =
     \<lparr>guild_id = 1, channel_id = 10, webhook_url = ''https://discord.com/api/webhooks/1/abc'',
      service = ''vercel'', ping_role_id = None, enabled = 1,
      last_incident_id = Some ''inc-41''\<rparr>"

definition disabled_row :: webhook_row where
  "disabled_row =
     \<lparr>guild_id = 2, channel_id = 20, webhook_url = ''https://discord.com/api/webhooks/2/def'',
      service = ''vercel'', ping_role_id = Some 7, enabled = 0, last_incident_id = None\<rparr>"

definition example_db :: webhooks where
  "example_db = [disabled_row, example_row]"

definition example_post :: "post_reply \<Rightarrow> poll_event" where
  "example_post reply =
     Http_post ''https://discord.com/api/webhooks/1/abc''
       \<lparr>wd_embeds = [example_embed], wd_content = None\<rparr> reply"

definition notified_row :: webhook_row where
  "notified_row = example_row\<lparr>last_incident_id := Some ''inc-42''\<rparr>"

definition example_db_notified :: webhooks where
  "example_db_notified = [disabled_row, notified_row]"

definition example_channel :: channel where
  "example_channel = \<lparr>ch_id = 30, ch_can_send = True\<rparr>"

definition pinged_row :: webhook_row where
  "pinged_row =
     \<lparr>guild_id = 2, channel_id = 20, webhook_url = ''https://discord.com/api/webhooks/2/def'',
      service = ''vercel'', ping_role_id = Some 7, enabled = 0, last_incident_id = Some ''inc-41''\<rparr>"

definition replaced_row :: webhook_row where
  "replaced_row =
     \<lparr>guild_id = 2, channel_id = 30, webhook_url = ''https://discord.com/api/webhooks/3/ghi'',
      service = ''vercel'', ping_role_id = None, enabled = 1, last_incident_id = None\<rparr>"

text \<open>The sends among the events of a command.\<close>

definition is_send :: "cmd_event \<Rightarrow> bool" where
  "is_send e = (case e of Channel_send c m out \<Rightarrow> True | _ \<Rightarrow> False)"

text \<open>Sends 1 and 3 of a destination are refused, the others accepted.\<close>

definition two_refusals :: "nat \<Rightarrow> send_outcome" where
  "two_refusals i = (if i = 1 \<or> i = 3 then Forbidden else Sent)"

text \<open>The sends of a command that raised.\<close>

definition is_failed_send :: "cmd_event \<Rightarrow> bool" where
  "is_failed_send e = (case e of Channel_send c m out \<Rightarrow> out \<noteq> Sent | _ \<Rightarrow> False)"

text \<open>
  The guild and the channel a bulk command reaches for an id, and the sends of its inner
  loop there, one for each of the \<open>count\<close> iterations.
\<close>

definition reachable :: "(int \<Rightarrow> guild option) \<Rightarrow> int \<Rightarrow> (guild \<times> channel) option" where
  "reachable get_guild gid =
     (case get_guild gid of
        None \<Rightarrow> None
      | Some g \<Rightarrow> (case find_target_channel g of None \<Rightarrow> None | Some target \<Rightarrow> Some (g, target)))"

definition guild_sends :: "(nat \<Rightarrow> send_world) \<Rightarrow> string \<Rightarrow> bool \<Rightarrow> int \<Rightarrow> guild \<Rightarrow> channel \<Rightarrow> cmd_event list" where
  "guild_sends world_at message embed_format count g target =
     map (\<lambda>i. Channel_send (ch_id target)
                 (multi_send_payload g message embed_format count i (sw_now (world_at i)))
                 (sw_outcome (world_at i)))
       [0..<nat count]"

definition not_found_text :: string where
  "not_found_text = cross_mark @ '' Server not found or bot not in server''"

text \<open>
  \<open>int(s.strip())\<close> on a string of decimal digits, the parser of the examples below
  (\<open>None\<close> on every other string).
\<close>

definition digit_value :: "char \<Rightarrow> int option" where
  "digit_value c = map_of (zip ''0123456789'' [0, 1, 2, 3, 4, 5, 6, 7, 8, 9]) c"

fun decimal_value :: "int \<Rightarrow> string \<Rightarrow> int option" where
  "decimal_value a [] = Some a"
| "decimal_value a (c # cs) =
     (case digit_value c of None \<Rightarrow> None | Some d \<Rightarrow> decimal_value (10 * a + d) cs)"

definition py_int_digits :: "string \<Rightarrow> int option" where
  "py_int_digits s = (if s = [] then None else decimal_value 0 s)"

text \<open>Two guilds of the examples, known to the bot under the ids 1 and 2.\<close>

definition guild_alpha :: guild where
  "guild_alpha = \<lparr>g_name = ''Alpha'', g_system_channel = Some \<lparr>ch_id = 11, ch_can_send = True\<rparr>,
                  g_text_channels = []\<rparr>"

definition guild_beta :: guild where
  "guild_beta = \<lparr>g_name = ''Beta'', g_system_channel = None,
                 g_text_channels = [\<lparr>ch_id = 21, ch_can_send = False\<rparr>,
                                    \<lparr>ch_id = 22, ch_can_send = True\<rparr>]\<rparr>"

definition example_get_guild :: "int \<Rightarrow> guild option" where
  "example_get_guild gid =
     (if gid = 1 then Some guild_alpha else if gid = 2 then Some guild_beta else None)"

definition all_sent :: "nat \<Rightarrow> nat \<Rightarrow> send_world" where
  "all_sent p i = \<lparr>sw_outcome = Sent, sw_now = 0\<rparr>"

definition example_multi_state :: multi_state where
  "example_multi_state =
     multi_send_guilds example_get_guild all_sent ''hello'' False 2 0 3 0 [1, 999, 2]
       \<lparr>ms_events = [], ms_results = [], ms_total_sent = 0, ms_total_failed = 0\<rparr>"

text \<open>What one id of the list does to the state.\<close>

definition guild_step :: "(int \<Rightarrow> guild option) \<Rightarrow> (nat \<Rightarrow> nat \<Rightarrow> send_world) \<Rightarrow> string \<Rightarrow> bool \<Rightarrow> int \<Rightarrow>
    real \<Rightarrow> nat \<Rightarrow> nat \<Rightarrow> int \<Rightarrow> multi_state \<Rightarrow> multi_state" where
  "guild_step get_guild world_at message embed_format count delay n p gid st =
     multi_send_guilds get_guild world_at message embed_format count delay n p [gid] st"

text \<open>The response of the error handler to a failed check on an owner command.\<close>

definition restricted_response :: "cmd_event list" where
  "restricted_response =
     [Respond (cross_mark @ '' This command is restricted to the bot owner only.'') True]"

section \<open>Properties\<close>

subsection \<open>Rendering\<close>

lemma capitalize_vercel: "capitalize ''vercel'' = ''Vercel''"
  by (simp add: capitalize_def upper_char_def lower_char_def)

lemma truncate_long_update: "truncate_update long_update = replicate 200 (CHR ''a'') @ ''...''"
  by (simp add: truncate_update_def long_update_def)

lemma example_embed_rendered: "create_status_embed 0 ''vercel'' example_data = Inr example_embed"
  by (simp add: create_status_embed_def example_data_def example_embed_def incidents_field_def
        components_field_def incident_block_def example_incident_def Let_def capitalize_vercel
        truncate_long_update)
     (simp add: long_update_def)

lemma incident_loop_blocks:
  "incident_loop acc incs = Inr t \<Longrightarrow>
     \<exists>bs. length bs = length incs \<and> (\<forall>k < length incs. incident_block (incs ! k) = Inr (bs ! k)) \<and>
          t = acc @ concat bs"
proof (induction incs arbitrary: acc)
  case Nil
  then show ?case by simp
next
  case (Cons i rest)
  from Cons.prems obtain b where b: "incident_block i = Inr b"
    and r: "incident_loop (acc @ b) rest = Inr t"
    by (auto split: sum.splits)
  from Cons.IH [OF r] obtain bs where bs: "length bs = length rest"
    "\<forall>k < length rest. incident_block (rest ! k) = Inr (bs ! k)" "t = (acc @ b) @ concat bs"
    by blast
  have "\<forall>k < length (i # rest). incident_block ((i # rest) ! k) = Inr ((b # bs) ! k)"
    using b bs(2) by (auto simp: nth_Cons split: nat.splits)
  with bs show ?case
    by (intro exI [of _ "b # bs"]) simp
qed

lemma incident_block_text:
  assumes "incident_block i = Inr b"
    and "inc_updates i = Some (u # us)" and "upd_body u = Some utext" and "utext \<noteq> []"
  shows "b = ''**'' @ (case inc_name i of None \<Rightarrow> ''Unnamed incident'' | Some n \<Rightarrow> n) @ ''** ('' @
             (case inc_status i of None \<Rightarrow> ''unknown'' | Some s \<Rightarrow> s) @ '')'' @ newline @
             truncate_update utext @ newline @ newline"
  using assms by (simp add: incident_block_def Let_def)

lemma create_status_embed_fields:
  assumes "create_status_embed now service_name data = Inr e"
  shows "\<exists>f1 f2. incidents_field (sd_incidents data) = Inr f1 \<and>
           components_field (sd_components data) = Inr f2 \<and> e_fields e = [f1, f2]"
  using assms
  by (auto simp: create_status_embed_def Let_def split: json.splits option.splits sum.splits)

text \<open>
  Claim C8. In the embed \<open>create_status_embed\<close> returns for data with at least one
  incident, the first field is "Recent Incidents" and its text is the concatenation of one
  block for each of the first three incidents, and no more. The block of an incident whose
  latest update has a non-empty text is the line with its name and status followed by the
  truncated text and two line ends; the truncation of a text longer than 200 characters is
  its first 200 characters followed by "...", and a text of 200 characters or fewer is
  rendered as it is.
\<close>

theorem create_status_embed_incident_summaries:
  assumes "create_status_embed now service_name data = Inr e"
    and "sd_incidents data \<noteq> []"
  shows "\<exists>f rest bs. e_fields e = f # rest \<and> f_name f = ''Recent Incidents'' \<and>
           f_value f = concat bs \<and> length bs = min 3 (length (sd_incidents data)) \<and>
           (\<forall>k < length bs. \<forall>u us utext.
              inc_updates (sd_incidents data ! k) = Some (u # us) \<and> upd_body u = Some utext \<and> utext \<noteq> [] \<longrightarrow>
              bs ! k = ''**'' @ (case inc_name (sd_incidents data ! k) of
                                   None \<Rightarrow> ''Unnamed incident'' | Some n \<Rightarrow> n) @
                       ''** ('' @ (case inc_status (sd_incidents data ! k) of
                                     None \<Rightarrow> ''unknown'' | Some s \<Rightarrow> s) @
                       '')'' @ newline @ truncate_update utext @ newline @ newline \<and>
              (length utext > 200 \<longrightarrow> truncate_update utext = take 200 utext @ ''...'') \<and>
              (length utext \<le> 200 \<longrightarrow> truncate_update utext = utext))"
proof -
  let ?incs = "sd_incidents data"
  from create_status_embed_fields [OF assms(1)] obtain f1 f2
    where f1: "incidents_field ?incs = Inr f1" and fs: "e_fields e = [f1, f2]"
    by blast
  from assms(2) have ne: "take 3 ?incs \<noteq> []" by (cases ?incs) auto
  from f1 ne obtain t where t: "incident_loop [] (take 3 ?incs) = Inr t"
    and f1_eq: "f1 = \<lparr>f_name = ''Recent Incidents'', f_value = t, f_inline = False\<rparr>"
    by (auto simp: incidents_field_def Let_def split: sum.splits if_splits)
  from incident_loop_blocks [OF t] obtain bs where bs: "length bs = length (take 3 ?incs)"
    "\<forall>k < length (take 3 ?incs). incident_block (take 3 ?incs ! k) = Inr (bs ! k)"
    "t = concat bs"
    by auto
  have blocks: "incident_block (?incs ! k) = Inr (bs ! k)" if "k < length bs" for k
    using bs(1,2) that by simp
  have "bs ! k = ''**'' @ (case inc_name (?incs ! k) of
                                   None \<Rightarrow> ''Unnamed incident'' | Some n \<Rightarrow> n) @
                       ''** ('' @ (case inc_status (?incs ! k) of
                                     None \<Rightarrow> ''unknown'' | Some s \<Rightarrow> s) @
                       '')'' @ newline @ truncate_update utext @ newline @ newline"
    if "k < length bs" "inc_updates (?incs ! k) = Some (u # us)" "upd_body u = Some utext" "utext \<noteq> []"
    for k u us utext
    using incident_block_text [OF blocks [OF that(1)] that(2,3,4)] .
  moreover have "length utext > 200 \<longrightarrow> truncate_update utext = take 200 utext @ ''...''"
    and "length utext \<le> 200 \<longrightarrow> truncate_update utext = utext" for utext
    by (simp_all add: truncate_update_def)
  ultimately show ?thesis
    using fs f1_eq bs(1,3)
    by (intro exI [of _ f1] exI [of _ "[f2]"] exI [of _ bs]) (simp add: min.commute)
qed

text \<open>The theorem at an incident whose update has 250 characters.\<close>

theorem create_status_embed_incident_summaries_witness:
  "create_status_embed 0 ''vercel'' example_data = Inr example_embed \<and>
   sd_incidents example_data \<noteq> [] \<and> length long_update = 250 \<and>
   (\<exists>f rest bs. e_fields example_embed = f # rest \<and> f_name f = ''Recent Incidents'' \<and>
      f_value f = concat bs \<and> length bs = 1 \<and>
      bs ! 0 = ''**API errors** (investigating)'' @ newline @ take 200 long_update @ ''...'' @
               newline @ newline)"
proof -
  have h2: "sd_incidents example_data \<noteq> []" by (simp add: example_data_def)
  have len: "length long_update = 250" by (simp add: long_update_def)
  from create_status_embed_incident_summaries [OF example_embed_rendered h2]
  obtain f rest bs where c: "e_fields example_embed = f # rest" "f_name f = ''Recent Incidents''"
    "f_value f = concat bs" "length bs = min 3 (length (sd_incidents example_data))"
    and blocks: "\<forall>k < length bs. \<forall>u us utext.
              inc_updates (sd_incidents example_data ! k) = Some (u # us) \<and> upd_body u = Some utext \<and>
              utext \<noteq> [] \<longrightarrow>
              bs ! k = ''**'' @ (case inc_name (sd_incidents example_data ! k) of
                                   None \<Rightarrow> ''Unnamed incident'' | Some n \<Rightarrow> n) @
                       ''** ('' @ (case inc_status (sd_incidents example_data ! k) of
                                     None \<Rightarrow> ''unknown'' | Some s \<Rightarrow> s) @
                       '')'' @ newline @ truncate_update utext @ newline @ newline \<and>
              (length utext > 200 \<longrightarrow> truncate_update utext = take 200 utext @ ''...'') \<and>
              (length utext \<le> 200 \<longrightarrow> truncate_update utext = utext)"
    by blast
  from c(4) have l1: "length bs = 1" by (simp add: example_data_def)
  have "inc_updates (sd_incidents example_data ! 0) = Some (\<lparr>upd_body = Some long_update\<rparr> # []) \<and>
        upd_body \<lparr>upd_body = Some long_update\<rparr> = Some long_update \<and> long_update \<noteq> []"
    by (simp add: example_data_def example_incident_def long_update_def)
  with blocks l1 have "bs ! 0 = ''**'' @ (case inc_name (sd_incidents example_data ! 0) of
                                   None \<Rightarrow> ''Unnamed incident'' | Some n \<Rightarrow> n) @
                       ''** ('' @ (case inc_status (sd_incidents example_data ! 0) of
                                     None \<Rightarrow> ''unknown'' | Some s \<Rightarrow> s) @
                       '')'' @ newline @ truncate_update long_update @ newline @ newline \<and>
              (length long_update > 200 \<longrightarrow> truncate_update long_update = take 200 long_update @ ''...'')"
    by (metis zero_less_one)
  with len have "bs ! 0 = ''**API errors** (investigating)'' @ newline @ take 200 long_update @ ''...'' @
               newline @ newline"
    by (simp add: example_data_def example_incident_def)
  with c l1 h2 len example_embed_rendered show ?thesis by blast
qed

subsection \<open>Fetching\<close>

lemma SERVICES_url_nonempty: "map_of SERVICES service_name = Some url \<Longrightarrow> url \<noteq> []"
  by (auto simp: SERVICES_def split: if_splits)

text \<open>
  Claim C4, as amended. For a name that is not in \<open>SERVICES\<close>, \<open>get_service_data\<close>
  makes no request and returns \<open>None\<close>. For a known name it requests the status, the
  incidents and the components in this order and stops at the first read that raises (a
  network error, or a body \<open>resp.json()\<close> cannot read); it returns \<open>None\<close> when a read
  raises and when the incidents or the components body is no JSON object. The status code
  of a response is never looked at: when the three bodies parse and the last two are
  objects, whatever the three status codes are, the result is the dictionary of all three
  parts, a missing \<open>incidents\<close> or \<open>components\<close> member read as the empty list. The result
  is \<open>None\<close> or has all three parts.
\<close>

theorem get_service_data_all_or_nothing:
  "(map_of SERVICES service_name = None \<longrightarrow> get_service_data w service_name = ([], None)) \<and>
   (\<forall>url. map_of SERVICES service_name = Some url \<longrightarrow>
      ((r_status w = Net_error \<or> (\<exists>c. r_status w = Reply c None))
         \<longrightarrow> get_service_data w service_name = ([url @ ''/status.json''], None)) \<and>
      ((\<exists>c s. r_status w = Reply c (Some s)) \<and>
       (r_incidents w = Net_error \<or> (\<exists>c. r_incidents w = Reply c None))
         \<longrightarrow> get_service_data w service_name =
               ([url @ ''/status.json'', url @ ''/incidents.json''], None)) \<and>
      ((\<exists>c s. r_status w = Reply c (Some s)) \<and> (\<exists>c i. r_incidents w = Reply c (Some i)) \<and>
       (r_components w = Net_error \<or> (\<exists>c. r_components w = Reply c None) \<or>
        (\<exists>c. r_incidents w = Reply c (Some Non_object)) \<or>
        (\<exists>c. r_components w = Reply c (Some Non_object)))
         \<longrightarrow> get_service_data w service_name =
               ([url @ ''/status.json'', url @ ''/incidents.json'', url @ ''/components.json''],
                None)) \<and>
      (\<forall>c1 c2 c3 s i c.
         r_status w = Reply c1 (Some s) \<and> r_incidents w = Reply c2 (Some (Object i)) \<and>
         r_components w = Reply c3 (Some (Object c))
         \<longrightarrow> get_service_data w service_name =
               ([url @ ''/status.json'', url @ ''/incidents.json'', url @ ''/components.json''],
                Some \<lparr>sd_status = s,
                      sd_incidents = (case i of None \<Rightarrow> [] | Some xs \<Rightarrow> xs),
                      sd_components = (case c of None \<Rightarrow> [] | Some xs \<Rightarrow> xs)\<rparr>)))"
proof (intro conjI impI allI)
  assume "map_of SERVICES service_name = None"
  then show "get_service_data w service_name = ([], None)"
    by (simp add: get_service_data_def)
next
  fix url
  assume u: "map_of SERVICES service_name = Some url"
    and "r_status w = Net_error \<or> (\<exists>c. r_status w = Reply c None)"
  then show "get_service_data w service_name = ([url @ ''/status.json''], None)"
    using SERVICES_url_nonempty [OF u]
    by (auto simp: get_service_data_def read_json_def)
next
  fix url
  assume u: "map_of SERVICES service_name = Some url"
    and "(\<exists>c s. r_status w = Reply c (Some s)) \<and>
         (r_incidents w = Net_error \<or> (\<exists>c. r_incidents w = Reply c None))"
  then show "get_service_data w service_name =
               ([url @ ''/status.json'', url @ ''/incidents.json''], None)"
    using SERVICES_url_nonempty [OF u]
    by (auto simp: get_service_data_def read_json_def)
next
  fix url
  assume u: "map_of SERVICES service_name = Some url"
    and "(\<exists>c s. r_status w = Reply c (Some s)) \<and> (\<exists>c i. r_incidents w = Reply c (Some i)) \<and>
       (r_components w = Net_error \<or> (\<exists>c. r_components w = Reply c None) \<or>
        (\<exists>c. r_incidents w = Reply c (Some Non_object)) \<or>
        (\<exists>c. r_components w = Reply c (Some Non_object)))"
  then show "get_service_data w service_name =
               ([url @ ''/status.json'', url @ ''/incidents.json'', url @ ''/components.json''],
                None)"
    using SERVICES_url_nonempty [OF u]
    by (auto simp: get_service_data_def read_json_def get_list_def Let_def
             split: http_reply.splits option.splits json.splits sum.splits)
next
  fix url c1 c2 c3 s i c
  assume u: "map_of SERVICES service_name = Some url"
    and "r_status w = Reply c1 (Some s) \<and> r_incidents w = Reply c2 (Some (Object i)) \<and>
         r_components w = Reply c3 (Some (Object c))"
  then show "get_service_data w service_name =
               ([url @ ''/status.json'', url @ ''/incidents.json'', url @ ''/components.json''],
                Some \<lparr>sd_status = s,
                      sd_incidents = (case i of None \<Rightarrow> [] | Some xs \<Rightarrow> xs),
                      sd_components = (case c of None \<Rightarrow> [] | Some xs \<Rightarrow> xs)\<rparr>)"
    using SERVICES_url_nonempty [OF u]
    by (auto simp: get_service_data_def read_json_def get_list_def Let_def split: option.splits)
qed

lemma vercel_url: "map_of SERVICES ''vercel'' = Some ''https://vercel.statuspage.io/api/v2''"
  by (simp add: SERVICES_def)

text \<open>
  Claim C4 as stated fails: the components read answered with status 503 and a JSON
  object without the member \<open>components\<close>, and the fetch returns a snapshot, with no
  component in it.
\<close>

theorem get_service_data_non_2xx_counterexample:
  "r_components replies_components_503 = Reply 503 (Some (Object None)) \<and>
   \<not> (200 \<le> (503 :: nat) \<and> (503 :: nat) < 300) \<and>
   snd (get_service_data replies_components_503 ''vercel'') =
     Some \<lparr>sd_status = example_status, sd_incidents = [example_incident], sd_components = []\<rparr>"
  by (simp add: get_service_data_def replies_components_503_def vercel_url read_json_def
        get_list_def Let_def)

text \<open>The theorem at that input, and at a name that is not a service.\<close>

theorem get_service_data_all_or_nothing_witness:
  "map_of SERVICES ''vercel'' = Some ''https://vercel.statuspage.io/api/v2'' \<and>
   r_status replies_components_503 = Reply 200 (Some example_status) \<and>
   r_incidents replies_components_503 = Reply 200 (Some (Object (Some [example_incident]))) \<and>
   r_components replies_components_503 = Reply 503 (Some (Object None)) \<and>
   get_service_data replies_components_503 ''vercel'' =
     ([''https://vercel.statuspage.io/api/v2/status.json'',
       ''https://vercel.statuspage.io/api/v2/incidents.json'',
       ''https://vercel.statuspage.io/api/v2/components.json''],
      Some \<lparr>sd_status = example_status, sd_incidents = [example_incident], sd_components = []\<rparr>) \<and>
   map_of SERVICES ''github'' = None \<and>
   get_service_data replies_components_503 ''github'' = ([], None)"
proof -
  have r: "r_status replies_components_503 = Reply 200 (Some example_status) \<and>
           r_incidents replies_components_503 = Reply 200 (Some (Object (Some [example_incident]))) \<and>
           r_components replies_components_503 = Reply 503 (Some (Object None))"
    by (simp add: replies_components_503_def)
  have n: "map_of SERVICES ''github'' = None" by (simp add: SERVICES_def)
  from get_service_data_all_or_nothing [of "''vercel''" replies_components_503] vercel_url r
  have "get_service_data replies_components_503 ''vercel'' =
     ([''https://vercel.statuspage.io/api/v2'' @ ''/status.json'',
       ''https://vercel.statuspage.io/api/v2'' @ ''/incidents.json'',
       ''https://vercel.statuspage.io/api/v2'' @ ''/components.json''],
      Some \<lparr>sd_status = example_status,
            sd_incidents = (case Some [example_incident] of None \<Rightarrow> [] | Some xs \<Rightarrow> xs),
            sd_components = (case None of None \<Rightarrow> [] | Some xs \<Rightarrow> xs)\<rparr>)"
    by blast
  moreover from get_service_data_all_or_nothing [of "''github''" replies_components_503] n
  have "get_service_data replies_components_503 ''github'' = ([], None)" by blast
  ultimately show ?thesis using vercel_url r n by simp
qed

subsection \<open>The table and the loop of the poller\<close>

lemma find_map_same:
  assumes "\<And>x. P (f x) = P x"
  shows "find P (map f xs) = map_option f (find P xs)"
  using assms by (induction xs) auto

lemma select_one_update_same:
  "select_one g s (update_last_incident v g s db) =
     map_option (\<lambda>r. r\<lparr>last_incident_id := v\<rparr>) (select_one g s db)"
proof -
  have "find (\<lambda>r. guild_id r = g \<and> service r = s)
          (map (\<lambda>r. if guild_id r = g \<and> service r = s then r\<lparr>last_incident_id := v\<rparr> else r) db) =
        map_option (\<lambda>r. if guild_id r = g \<and> service r = s then r\<lparr>last_incident_id := v\<rparr> else r)
          (find (\<lambda>r. guild_id r = g \<and> service r = s) db)"
    by (rule find_map_same) simp
  also have "\<dots> = map_option (\<lambda>r. r\<lparr>last_incident_id := v\<rparr>)
                     (find (\<lambda>r. guild_id r = g \<and> service r = s) db)"
    by (cases "find (\<lambda>r. guild_id r = g \<and> service r = s) db") (auto dest: find_Some_iff [THEN iffD1])
  finally show ?thesis by (simp add: select_one_def update_last_incident_def)
qed

lemma select_one_update_other:
  assumes "(g', s') \<noteq> (g, s)"
  shows "select_one g' s' (update_last_incident v g s db) = select_one g' s' db"
  using assms by (induction db) (auto simp: select_one_def update_last_incident_def)

lemma select_one_member:
  assumes "distinct (map row_key db)" and "r \<in> set db"
  shows "select_one (guild_id r) (service r) db = Some r"
  using assms
proof (induction db)
  case Nil
  then show ?case by simp
next
  case (Cons a db)
  show ?case
  proof (cases "r = a")
    case True
    then show ?thesis by (simp add: select_one_def)
  next
    case False
    with Cons.prems have r: "r \<in> set db" and "row_key a \<notin> row_key ` set db" by auto
    then have "row_key a \<noteq> row_key r" by blast
    then have "\<not> (guild_id a = guild_id r \<and> service a = service r)"
      by (auto simp: row_key_def)
    with Cons.IH [OF _ r] Cons.prems(1) show ?thesis by (auto simp: select_one_def)
  qed
qed

text \<open>One iteration: what it can do to the table.\<close>

lemma process_config_table:
  assumes "process_config w c db = (evs, Inr db')"
  shows "db' = db \<or> (\<exists>v. db' = update_last_incident v (guild_id c) (service c) db)"
  using assms
  by (auto simp: process_config_def Let_def
           split: prod.splits option.splits list.splits if_splits sum.splits)

lemma process_config_select_other:
  assumes "process_config w c db = (evs, Inr db')" and "(g, s) \<noteq> row_key c"
  shows "select_one g s db' = select_one g s db"
  using process_config_table [OF assms(1)] assms(2)
  by (auto simp: row_key_def select_one_update_other)

lemma update_last_incident_nth:
  assumes "j < length db" and "row_key (db ! j) \<noteq> (g, s)"
  shows "update_last_incident v g s db ! j = db ! j"
  using assms by (auto simp: update_last_incident_def row_key_def)

lemma update_last_incident_frame:
  "length (update_last_incident v g s db) = length db"
  "map row_key (update_last_incident v g s db) = map row_key db"
  "map enabled (update_last_incident v g s db) = map enabled db"
  by (simp_all add: update_last_incident_def row_key_def)

lemma process_config_frame:
  assumes "process_config w c db = (evs, Inr db')"
  shows "length db' = length db" and "map row_key db' = map row_key db"
    and "map enabled db' = map enabled db"
  using process_config_table [OF assms] by (auto simp: update_last_incident_frame)

lemma process_config_nth_other:
  assumes "process_config w c db = (evs, Inr db')" and "j < length db"
    and "row_key (db ! j) \<noteq> row_key c"
  shows "db' ! j = db ! j"
  using process_config_table [OF assms(1)] assms(2,3)
  by (auto simp: update_last_incident_nth row_key_def)

text \<open>The loop.\<close>

lemma run_configs_entries:
  assumes "run_configs W j cs db = (entries, db', fin)"
  shows "length entries \<le> length cs \<and> map fst entries = take (length entries) cs \<and>
         (fin = Completed \<longrightarrow> length entries = length cs)"
  using assms
proof (induction cs arbitrary: j db entries db' fin)
  case Nil
  then show ?case by simp
next
  case (Cons c cs)
  obtain evs res where pc: "process_config (W j) c db = (evs, res)" by (cases "process_config (W j) c db")
  show ?case
  proof (cases res)
    case (Inl e)
    with Cons.prems pc show ?thesis by auto
  next
    case (Inr db1)
    obtain en2 db2 fin2 where rc: "run_configs W (Suc j) cs db1 = (en2, db2, fin2)"
      by (cases "run_configs W (Suc j) cs db1")
    from Cons.IH [OF rc] Cons.prems pc Inr rc show ?thesis by auto
  qed
qed

lemma run_configs_frame:
  assumes "run_configs W j cs db = (entries, db', fin)"
  shows "length db' = length db \<and> map row_key db' = map row_key db \<and> map enabled db' = map enabled db \<and>
         (\<forall>k < length db. row_key (db ! k) \<notin> row_key ` set cs \<longrightarrow> db' ! k = db ! k)"
  using assms
proof (induction cs arbitrary: j db entries db' fin)
  case Nil
  then show ?case by simp
next
  case (Cons c cs)
  obtain evs res where pc: "process_config (W j) c db = (evs, res)" by (cases "process_config (W j) c db")
  show ?case
  proof (cases res)
    case (Inl e)
    with Cons.prems pc show ?thesis by auto
  next
    case (Inr db1)
    obtain en2 db2 fin2 where rc: "run_configs W (Suc j) cs db1 = (en2, db2, fin2)"
      by (cases "run_configs W (Suc j) cs db1")
    from Cons.prems pc Inr rc have db': "db' = db2" by simp
    note f1 = process_config_frame [OF pc [unfolded Inr]]
    note ih = Cons.IH [OF rc]
    have "db' ! k = db ! k" if "k < length db" "row_key (db ! k) \<notin> row_key ` set (c # cs)" for k
    proof -
      from that have k1: "k < length db1" using f1(1) by simp
      have key: "row_key (db1 ! k) = row_key (db ! k)"
        using f1(2) that(1) by (metis k1 nth_map)
      from that have "db1 ! k = db ! k"
        using process_config_nth_other [OF pc [unfolded Inr]] by simp
      moreover have "db2 ! k = db1 ! k" using ih k1 key that(2) by simp
      ultimately show ?thesis using db' by simp
    qed
    with ih f1 db' show ?thesis by simp
  qed
qed

lemma run_configs_select_unentered:
  assumes "run_configs W j cs db = (entries, db', fin)"
    and "(g, s) \<notin> row_key ` set (take (length entries) cs)"
  shows "select_one g s db' = select_one g s db"
  using assms
proof (induction cs arbitrary: j db entries db' fin)
  case Nil
  then show ?case by simp
next
  case (Cons c cs)
  obtain evs res where pc: "process_config (W j) c db = (evs, res)" by (cases "process_config (W j) c db")
  show ?case
  proof (cases res)
    case (Inl e)
    with Cons.prems pc show ?thesis by auto
  next
    case (Inr db1)
    obtain en2 db2 fin2 where rc: "run_configs W (Suc j) cs db1 = (en2, db2, fin2)"
      by (cases "run_configs W (Suc j) cs db1")
    from Cons.prems pc Inr rc have eq: "db' = db2" "entries = (c, evs) # en2" by auto
    with Cons.prems(2) have "(g, s) \<noteq> row_key c" "(g, s) \<notin> row_key ` set (take (length en2) cs)"
      by auto
    with Cons.IH [OF rc] process_config_select_other [OF pc [unfolded Inr]] eq
    show ?thesis by simp
  qed
qed

lemma run_configs_select_other:
  assumes "run_configs W j cs db = (entries, db', fin)" and "(g, s) \<notin> row_key ` set cs"
  shows "select_one g s db' = select_one g s db"
proof -
  have "set (take (length entries) cs) \<subseteq> set cs" by (rule set_take_subset)
  with assms(2) have "(g, s) \<notin> row_key ` set (take (length entries) cs)" by blast
  with assms(1) show ?thesis by (rule run_configs_select_unentered)
qed

text \<open>The iteration at index i, when it is entered.\<close>

lemma run_configs_nth:
  assumes "run_configs W j cs db = (entries, db', fin)" and "i < length entries"
    and "distinct (map row_key cs)"
  shows "\<exists>dbi evs res. process_config (W (j + i)) (cs ! i) dbi = (evs, res) \<and>
           entries ! i = (cs ! i, evs) \<and>
           select_one (guild_id (cs ! i)) (service (cs ! i)) dbi =
             select_one (guild_id (cs ! i)) (service (cs ! i)) db \<and>
           select_one (guild_id (cs ! i)) (service (cs ! i)) db' =
             (case res of Inl e \<Rightarrow> select_one (guild_id (cs ! i)) (service (cs ! i)) dbi
              | Inr dbi' \<Rightarrow> select_one (guild_id (cs ! i)) (service (cs ! i)) dbi')"
  using assms
proof (induction cs arbitrary: j db entries db' fin i)
  case Nil
  then show ?case by simp
next
  case (Cons c cs)
  obtain evs res where pc: "process_config (W j) c db = (evs, res)" by (cases "process_config (W j) c db")
  show ?case
  proof (cases res)
    case (Inl e)
    with Cons.prems pc have "entries = [(c, evs)]" "db' = db" by auto
    with Cons.prems(2) pc Inl show ?thesis by (intro exI [of _ db] exI [of _ evs] exI [of _ res]) simp
  next
    case (Inr db1)
    obtain en2 db2 fin2 where rc: "run_configs W (Suc j) cs db1 = (en2, db2, fin2)"
      by (cases "run_configs W (Suc j) cs db1")
    from Cons.prems pc Inr rc have eq: "entries = (c, evs) # en2" "db' = db2" by auto
    from Cons.prems(3) have dist: "distinct (map row_key cs)" and cnot: "row_key c \<notin> row_key ` set cs"
      by auto
    show ?thesis
    proof (cases i)
      case 0
      have "select_one (guild_id c) (service c) db2 = select_one (guild_id c) (service c) db1"
        using run_configs_select_other [OF rc] cnot by (simp add: row_key_def)
      with 0 pc Inr eq show ?thesis
        by (intro exI [of _ db] exI [of _ evs] exI [of _ res]) simp
    next
      case (Suc i')
      with Cons.prems(2) eq have i': "i' < length en2" by simp
      from run_configs_entries [OF rc] i' have "i' < length cs" by simp
      then have "cs ! i' \<in> set cs" by simp
      with cnot have ne: "(guild_id (cs ! i'), service (cs ! i')) \<noteq> row_key c"
        by (metis image_eqI row_key_def)
      from Cons.IH [OF rc i' dist] obtain dbi evs' res' where
        st: "process_config (W (Suc j + i')) (cs ! i') dbi = (evs', res')"
          "en2 ! i' = (cs ! i', evs')"
          "select_one (guild_id (cs ! i')) (service (cs ! i')) dbi =
             select_one (guild_id (cs ! i')) (service (cs ! i')) db1"
          "select_one (guild_id (cs ! i')) (service (cs ! i')) db2 =
             (case res' of Inl e \<Rightarrow> select_one (guild_id (cs ! i')) (service (cs ! i')) dbi
              | Inr dbi' \<Rightarrow> select_one (guild_id (cs ! i')) (service (cs ! i')) dbi')"
        by blast
      have "select_one (guild_id (cs ! i')) (service (cs ! i')) db1 =
            select_one (guild_id (cs ! i')) (service (cs ! i')) db"
        using process_config_select_other [OF pc [unfolded Inr] ne] .
      with st Suc eq show ?thesis
        by (intro exI [of _ dbi] exI [of _ evs'] exI [of _ res']) (auto split: sum.splits)
    qed
  qed
qed

lemma distinct_select_enabled:
  "distinct (map row_key db) \<Longrightarrow> distinct (map row_key (select_enabled db))"
  by (simp add: select_enabled_def distinct_map_filter)

lemma process_config_new_incident:
  assumes "get_service_data (w_fetch w) (service c) = (urls, Some data)"
    and "sd_incidents data = latest # others"
    and "inc_id latest \<noteq> last_incident_id c"
  shows "process_config w c db =
     (case create_status_embed (w_now w) (service c) data of
        Inl e \<Rightarrow> (map Http_get urls, Inl e)
      | Inr status_embed \<Rightarrow>
          (map Http_get urls @
             [Http_post (webhook_url c) (webhook_payload c status_embed) (w_post w)] @
             (if w_post w = Post_status 204
              then [Sql_update (inc_id latest) (guild_id c) (service c)] else []),
           Inr (if w_post w = Post_status 204
                then update_last_incident (inc_id latest) (guild_id c) (service c) db
                else db)))"
  using assms by (simp add: process_config_def Let_def split: sum.splits)

lemma process_config_same_incident:
  assumes "get_service_data (w_fetch w) (service c) = (urls, Some data)"
    and "sd_incidents data = latest # others"
    and "inc_id latest = last_incident_id c"
  shows "process_config w c db = (map Http_get urls, Inr db)"
  using assms by (simp add: process_config_def Let_def)

lemma process_config_updates_own_key:
  assumes "process_config w c db = (evs, res)" and "e \<in> set evs" and "is_update_for g s e"
  shows "(g, s) = row_key c"
  using assms
  by (auto simp: process_config_def Let_def is_update_for_def row_key_def
           split: prod.splits option.splits list.splits if_splits sum.splits)

lemma process_config_one_post:
  assumes "process_config w c db = (evs, res)"
  shows "length (filter is_post evs) \<le> 1" and "length (filter is_accepted_post evs) \<le> 1"
  using assms
  by (auto simp: process_config_def Let_def is_post_def is_accepted_post_def filter_map comp_def
           split: prod.splits option.splits list.splits if_splits sum.splits)

lemma filter_concat_none:
  assumes "\<forall>x \<in> set xs. filter P x = []"
  shows "filter P (concat xs) = []"
  using assms by (induction xs) auto

lemma filter_concat_single:
  assumes "i < length xs" and "\<forall>k < length xs. k \<noteq> i \<longrightarrow> filter P (xs ! k) = []"
  shows "filter P (concat xs) = filter P (xs ! i)"
  using assms
proof (induction xs arbitrary: i)
  case Nil
  then show ?case by simp
next
  case (Cons x xs)
  show ?case
  proof (cases i)
    case 0
    have "\<forall>y \<in> set xs. filter P y = []"
    proof
      fix y assume "y \<in> set xs"
      then obtain k where "k < length xs" "xs ! k = y" by (auto simp: in_set_conv_nth)
      with Cons.prems(2) [rule_format, of "Suc k"] 0 show "filter P y = []" by simp
    qed
    with 0 show ?thesis by (simp add: filter_concat_none)
  next
    case (Suc i')
    from Cons.prems(2) [rule_format, of 0] Suc have x: "filter P x = []" by simp
    have "\<forall>k < length xs. k \<noteq> i' \<longrightarrow> filter P (xs ! k) = []"
      using Cons.prems(2) [rule_format, of "Suc k" for k] Suc by auto
    with Cons.IH [of i'] Cons.prems(1) Suc x show ?thesis by simp
  qed
qed

lemma run_configs_updates_of_key:
  assumes rc: "run_configs W j cs db = (entries, db', fin)" and i: "i < length entries"
    and dist: "distinct (map row_key cs)"
  shows "filter (is_update_for (guild_id (cs ! i)) (service (cs ! i))) (concat (map snd entries)) =
         filter (is_update_for (guild_id (cs ! i)) (service (cs ! i))) (snd (entries ! i))"
proof -
  let ?P = "is_update_for (guild_id (cs ! i)) (service (cs ! i))"
  from run_configs_entries [OF rc] have len: "length entries \<le> length cs" by simp
  have "filter ?P (map snd entries ! k) = []" if k: "k < length (map snd entries)" "k \<noteq> i" for k
  proof -
    from k have k': "k < length entries" by simp
    from run_configs_nth [OF rc k' dist] obtain dbk evs res where
      pc: "process_config (W (j + k)) (cs ! k) dbk = (evs, res)" and en: "entries ! k = (cs ! k, evs)"
      by blast
    have "(map row_key cs ! k = map row_key cs ! i) = (k = i)"
      using dist k' i len by (intro nth_eq_iff_index_eq) auto
    with k(2) k' i len have "row_key (cs ! k) \<noteq> row_key (cs ! i)" by simp
    then have "\<not> ?P e" if "e \<in> set evs" for e
      using process_config_updates_own_key [OF pc that] by (auto simp: row_key_def)
    then have "filter ?P evs = []" by (simp add: filter_empty_conv)
    with en k' show ?thesis by simp
  qed
  then have "filter ?P (concat (map snd entries)) = filter ?P (map snd entries ! i)"
    using i by (intro filter_concat_single) auto
  with i show ?thesis by simp
qed

lemma distinct_keys_nth:
  assumes "distinct (map row_key cs)" and "k < length cs" and "i < length cs" and "k \<noteq> i"
  shows "row_key (cs ! k) \<noteq> row_key (cs ! i)"
proof -
  have "(map row_key cs ! k = map row_key cs ! i) = (k = i)"
    using assms(1,2,3) by (intro nth_eq_iff_index_eq) auto
  with assms show ?thesis by simp
qed

text \<open>Iteration i of a tick, for the row it processes.\<close>

lemma tick_iteration:
  assumes "distinct (map row_key db)"
    and "check_and_post_incidents world_at db = (entries, db', fin)"
    and "i < length entries"
    and "config = select_enabled db ! i"
  shows "\<exists>dbi evs res. process_config (world_at i) config dbi = (evs, res) \<and>
           entries ! i = (config, evs) \<and>
           select_one (guild_id config) (service config) db' =
             (case res of Inl e \<Rightarrow> Some config
              | Inr dbi' \<Rightarrow> select_one (guild_id config) (service config) dbi') \<and>
           select_one (guild_id config) (service config) dbi = Some config \<and>
           filter (is_update_for (guild_id config) (service config)) (concat (map snd entries)) =
             filter (is_update_for (guild_id config) (service config)) evs"
proof -
  let ?cs = "select_enabled db"
  let ?g = "guild_id config" and ?s = "service config"
  from assms(2) have rc: "run_configs world_at 0 ?cs db = (entries, db', fin)"
    by (simp add: check_and_post_incidents_def)
  have dist: "distinct (map row_key ?cs)" using assms(1) by (rule distinct_select_enabled)
  from run_configs_entries [OF rc] assms(3) have i: "i < length ?cs" by simp
  then have "config \<in> set ?cs" using assms(4) by simp
  then have indb: "config \<in> set db" by (simp add: select_enabled_def)
  have sel: "select_one ?g ?s db = Some config"
    using select_one_member [OF assms(1) indb] .
  from run_configs_nth [OF rc assms(3) dist] assms(4) obtain dbi evs res where
    pc: "process_config (world_at i) config dbi = (evs, res)"
    and ent: "entries ! i = (config, evs)"
    and seli: "select_one ?g ?s dbi = select_one ?g ?s db"
    and sel': "select_one ?g ?s db' =
                 (case res of Inl e \<Rightarrow> select_one ?g ?s dbi | Inr dbi' \<Rightarrow> select_one ?g ?s dbi')"
    by auto
  have upd: "filter (is_update_for ?g ?s) (concat (map snd entries)) =
             filter (is_update_for ?g ?s) evs"
    using run_configs_updates_of_key [OF rc assms(3) dist] assms(4) ent by simp
  from sel' seli sel have s1: "select_one ?g ?s db' =
      (case res of Inl e \<Rightarrow> Some config | Inr dbi' \<Rightarrow> select_one ?g ?s dbi')"
    by (simp split: sum.splits)
  from seli sel have s2: "select_one ?g ?s dbi = Some config" by simp
  show ?thesis
    by (intro exI [of _ dbi] exI [of _ evs] exI [of _ res] conjI pc ent s1 s2 upd)
qed

lemma select_enabled_member:
  assumes "i < length (select_enabled db)"
  shows "select_enabled db ! i \<in> set db" and "enabled (select_enabled db ! i) = 1"
proof -
  from assms have "select_enabled db ! i \<in> set (select_enabled db)" by simp
  then show "select_enabled db ! i \<in> set db" and "enabled (select_enabled db ! i) = 1"
    by (simp_all add: select_enabled_def)
qed

text \<open>
  Claim C1. Let the table have one row per key, and let iteration \<open>i\<close> of a tick be
  entered for the enabled row \<open>config\<close>, the fetch giving incidents whose first id
  differs from the marker read for \<open>config\<close>. When the embed is rendered, the iteration
  makes the three reads and one POST to the row's webhook. If the POST is answered 204,
  one \<open>UPDATE\<close> of this key follows, the only one in the whole tick, and the row of the
  key in the table after the tick is \<open>config\<close> with the marker set to the newest id and
  nothing else changed. On any other outcome of the POST, a raised exception or another
  status, there is no \<open>UPDATE\<close> of the key and the row is \<open>config\<close> unchanged, so the
  next tick finds the same difference. When \<open>create_status_embed\<close> raises there is no
  POST and the row is unchanged as well.
\<close>

theorem check_and_post_incidents_marker:
  assumes "distinct (map row_key db)"
    and "check_and_post_incidents world_at db = (entries, db', fin)"
    and "i < length entries"
    and "config = select_enabled db ! i"
    and "get_service_data (w_fetch (world_at i)) (service config) = (urls, Some data)"
    and "sd_incidents data = latest # others"
    and "inc_id latest \<noteq> last_incident_id config"
  shows "config \<in> set db \<and> enabled config = 1 \<and>
     (case create_status_embed (w_now (world_at i)) (service config) data of
        Inl e \<Rightarrow>
          entries ! i = (config, map Http_get urls) \<and>
          select_one (guild_id config) (service config) db' = Some config \<and>
          filter (is_update_for (guild_id config) (service config)) (concat (map snd entries)) = []
      | Inr status_embed \<Rightarrow>
          (if w_post (world_at i) = Post_status 204
           then entries ! i =
                  (config,
                   map Http_get urls @
                   [Http_post (webhook_url config) (webhook_payload config status_embed)
                      (Post_status 204),
                    Sql_update (inc_id latest) (guild_id config) (service config)]) \<and>
                select_one (guild_id config) (service config) db' =
                  Some (config\<lparr>last_incident_id := inc_id latest\<rparr>) \<and>
                filter (is_update_for (guild_id config) (service config))
                  (concat (map snd entries)) =
                  [Sql_update (inc_id latest) (guild_id config) (service config)]
           else entries ! i =
                  (config,
                   map Http_get urls @
                   [Http_post (webhook_url config) (webhook_payload config status_embed)
                      (w_post (world_at i))]) \<and>
                select_one (guild_id config) (service config) db' = Some config \<and>
                filter (is_update_for (guild_id config) (service config))
                  (concat (map snd entries)) = []))"
proof -
  let ?g = "guild_id config" and ?s = "service config"
  from assms(2) have rc: "run_configs world_at 0 (select_enabled db) db = (entries, db', fin)"
    by (simp add: check_and_post_incidents_def)
  from run_configs_entries [OF rc] assms(3) have i: "i < length (select_enabled db)" by simp
  from select_enabled_member [OF i] assms(4) have indb: "config \<in> set db" and en: "enabled config = 1"
    by simp_all
  from tick_iteration [OF assms(1,2,3,4)] obtain dbi evs res where
    pc: "process_config (world_at i) config dbi = (evs, res)"
    and ent: "entries ! i = (config, evs)"
    and sel': "select_one ?g ?s db' =
                 (case res of Inl e \<Rightarrow> Some config | Inr dbi' \<Rightarrow> select_one ?g ?s dbi')"
    and seli: "select_one ?g ?s dbi = Some config"
    and upd: "filter (is_update_for ?g ?s) (concat (map snd entries)) =
              filter (is_update_for ?g ?s) evs"
    by blast
  note new = process_config_new_incident [OF assms(5,6,7), of dbi]
  show ?thesis
  proof (cases "create_status_embed (w_now (world_at i)) (service config) data")
    case (Inl e)
    with new pc have "evs = map Http_get urls" "res = Inl e" by simp_all
    with Inl ent sel' seli upd indb en show ?thesis
      by (simp add: is_update_for_def filter_map comp_def)
  next
    case (Inr status_embed)
    show ?thesis
    proof (cases "w_post (world_at i) = Post_status 204")
      case True
      with new pc Inr have
        "evs = map Http_get urls @
           [Http_post (webhook_url config) (webhook_payload config status_embed) (Post_status 204),
            Sql_update (inc_id latest) ?g ?s]"
        "res = Inr (update_last_incident (inc_id latest) ?g ?s dbi)"
        by simp_all
      with Inr True ent sel' seli upd indb en show ?thesis
        by (simp add: is_update_for_def filter_map comp_def select_one_update_same)
    next
      case False
      with new pc Inr have
        "evs = map Http_get urls @
           [Http_post (webhook_url config) (webhook_payload config status_embed)
              (w_post (world_at i))]"
        "res = Inr dbi"
        by simp_all
      with Inr False ent sel' seli upd indb en show ?thesis
        by (simp add: is_update_for_def filter_map comp_def)
    qed
  qed
qed

lemma example_fetch: "get_service_data example_replies ''vercel'' = (vercel_urls, Some example_data)"
  by (simp add: get_service_data_def example_replies_def vercel_url read_json_def get_list_def
        Let_def vercel_urls_def example_data_def example_status_def)

lemma example_select: "select_enabled example_db = [example_row]"
  by (simp add: select_enabled_def example_db_def example_row_def disabled_row_def)

lemma example_distinct: "distinct (map row_key example_db)"
  by (simp add: example_db_def row_key_def example_row_def disabled_row_def)

lemma example_process_accepting:
  "process_config world_accepting example_row db =
     (map Http_get vercel_urls @
        [example_post (Post_status 204), Sql_update (Some ''inc-42'') 1 ''vercel''],
      Inr (update_last_incident (Some ''inc-42'') 1 ''vercel'' db))"
proof -
  have f: "get_service_data (w_fetch world_accepting) (service example_row) =
             (vercel_urls, Some example_data)"
    using example_fetch by (simp add: world_accepting_def example_row_def)
  have i: "sd_incidents example_data = example_incident # []" by (simp add: example_data_def)
  have n: "inc_id example_incident \<noteq> last_incident_id example_row"
    by (simp add: example_incident_def example_row_def)
  have r: "create_status_embed (w_now world_accepting) (service example_row) example_data =
             Inr example_embed"
    using example_embed_rendered by (simp add: world_accepting_def example_row_def)
  show ?thesis
    unfolding process_config_new_incident [OF f i n] r
    by (simp add: world_accepting_def example_post_def webhook_payload_def example_row_def
          example_incident_def)
qed

lemma example_process_failing:
  "process_config world_failing example_row db =
     (map Http_get vercel_urls @ [example_post (Post_status 500)], Inr db)"
proof -
  have f: "get_service_data (w_fetch world_failing) (service example_row) =
             (vercel_urls, Some example_data)"
    using example_fetch by (simp add: world_failing_def example_row_def)
  have i: "sd_incidents example_data = example_incident # []" by (simp add: example_data_def)
  have n: "inc_id example_incident \<noteq> last_incident_id example_row"
    by (simp add: example_incident_def example_row_def)
  have r: "create_status_embed (w_now world_failing) (service example_row) example_data =
             Inr example_embed"
    using example_embed_rendered by (simp add: world_failing_def example_row_def)
  show ?thesis
    unfolding process_config_new_incident [OF f i n] r
    by (simp add: world_failing_def example_post_def webhook_payload_def example_row_def)
qed

lemma example_tick_accepting:
  "check_and_post_incidents (\<lambda>i. world_accepting) example_db =
     ([(example_row,
        map Http_get vercel_urls @
          [example_post (Post_status 204), Sql_update (Some ''inc-42'') 1 ''vercel''])],
      [disabled_row, example_row\<lparr>last_incident_id := Some ''inc-42''\<rparr>], Completed)"
  by (simp add: check_and_post_incidents_def example_select example_process_accepting)
     (simp add: example_db_def update_last_incident_def example_row_def disabled_row_def)

lemma example_tick_failing:
  "check_and_post_incidents (\<lambda>i. world_failing) example_db =
     ([(example_row, map Http_get vercel_urls @ [example_post (Post_status 500)])],
      example_db, Completed)"
  by (simp add: check_and_post_incidents_def example_select example_process_failing)

text \<open>
  The theorem on a table with one enabled row whose marker is "inc-41", the newest
  incident being "inc-42": once with the POST answered 204, once with it answered 500.
\<close>

theorem check_and_post_incidents_marker_witness:
  "distinct (map row_key example_db) \<and>
   example_row = select_enabled example_db ! 0 \<and>
   get_service_data example_replies ''vercel'' = (vercel_urls, Some example_data) \<and>
   sd_incidents example_data = [example_incident] \<and>
   inc_id example_incident = Some ''inc-42'' \<and>
   last_incident_id example_row = Some ''inc-41'' \<and>
   select_one 1 ''vercel''
     (fst (snd (check_and_post_incidents (\<lambda>i. world_accepting) example_db))) =
     Some (example_row\<lparr>last_incident_id := Some ''inc-42''\<rparr>) \<and>
   filter (is_update_for 1 ''vercel'')
     (concat (map snd (fst (check_and_post_incidents (\<lambda>i. world_accepting) example_db)))) =
     [Sql_update (Some ''inc-42'') 1 ''vercel''] \<and>
   select_one 1 ''vercel''
     (fst (snd (check_and_post_incidents (\<lambda>i. world_failing) example_db))) =
     Some example_row \<and>
   filter (is_update_for 1 ''vercel'')
     (concat (map snd (fst (check_and_post_incidents (\<lambda>i. world_failing) example_db)))) = []"
proof -
  have sel: "example_row = select_enabled example_db ! 0" by (simp add: example_select)
  have inc: "sd_incidents example_data = example_incident # []" by (simp add: example_data_def)
  have ids: "inc_id example_incident = Some ''inc-42''" "last_incident_id example_row = Some ''inc-41''"
    by (simp_all add: example_incident_def example_row_def)
  then have ne: "inc_id example_incident \<noteq> last_incident_id example_row" by simp
  have fa: "get_service_data (w_fetch ((\<lambda>i. world_accepting) 0)) (service example_row) =
              (vercel_urls, Some example_data)"
    using example_fetch by (simp add: world_accepting_def example_row_def)
  have ff: "get_service_data (w_fetch ((\<lambda>i. world_failing) 0)) (service example_row) =
              (vercel_urls, Some example_data)"
    using example_fetch by (simp add: world_failing_def example_row_def)
  have ra: "create_status_embed (w_now world_accepting) (service example_row) example_data =
              Inr example_embed"
    using example_embed_rendered by (simp add: world_accepting_def example_row_def)
  have rf: "create_status_embed (w_now world_failing) (service example_row) example_data =
              Inr example_embed"
    using example_embed_rendered by (simp add: world_failing_def example_row_def)
  have key: "guild_id example_row = 1" "service example_row = ''vercel''"
    by (simp_all add: example_row_def)
  have wp: "w_post world_accepting = Post_status 204" "w_post world_failing = Post_status 500"
    by (simp_all add: world_accepting_def world_failing_def)
  have a: "select_one 1 ''vercel''
             (fst (snd (check_and_post_incidents (\<lambda>i. world_accepting) example_db))) =
             Some (example_row\<lparr>last_incident_id := Some ''inc-42''\<rparr>) \<and>
           filter (is_update_for 1 ''vercel'')
             (concat (map snd (fst (check_and_post_incidents (\<lambda>i. world_accepting) example_db)))) =
             [Sql_update (Some ''inc-42'') 1 ''vercel'']"
    using check_and_post_incidents_marker [OF example_distinct example_tick_accepting _ sel fa inc ne, unfolded ra]
    by (simp add: key ids wp example_tick_accepting is_update_for_def example_post_def vercel_urls_def)
  have b: "select_one 1 ''vercel''
             (fst (snd (check_and_post_incidents (\<lambda>i. world_failing) example_db))) =
             Some example_row \<and>
           filter (is_update_for 1 ''vercel'')
             (concat (map snd (fst (check_and_post_incidents (\<lambda>i. world_failing) example_db)))) = []"
    using check_and_post_incidents_marker [OF example_distinct example_tick_failing _ sel ff inc ne, unfolded rf]
    by (simp add: key ids wp example_tick_failing is_update_for_def example_post_def vercel_urls_def)
  from a b example_distinct sel example_fetch inc ids show ?thesis by simp
qed

lemma map_filter_same_projection:
  assumes "map f xs = map f ys" and "map g xs = map g ys"
  shows "map f (filter (\<lambda>x. g x = v) xs) = map f (filter (\<lambda>x. g x = v) ys)"
  using assms
proof (induction xs arbitrary: ys)
  case Nil
  then show ?case by simp
next
  case (Cons x xs)
  then obtain y ys' where "ys = y # ys'" by (cases ys) auto
  with Cons show ?case by auto
qed

lemma tick_frame:
  assumes "check_and_post_incidents world_at db = (entries, db', fin)"
  shows "length db' = length db" and "map row_key db' = map row_key db"
    and "map enabled db' = map enabled db"
    and "map row_key (select_enabled db') = map row_key (select_enabled db)"
proof -
  from assms have rc: "run_configs world_at 0 (select_enabled db) db = (entries, db', fin)"
    by (simp add: check_and_post_incidents_def)
  from run_configs_frame [OF rc] show "length db' = length db"
    and k: "map row_key db' = map row_key db" and e: "map enabled db' = map enabled db"
    by simp_all
  show "map row_key (select_enabled db') = map row_key (select_enabled db)"
    unfolding select_enabled_def using k e by (rule map_filter_same_projection)
qed

text \<open>A row whose iteration is not entered keeps its place in the table.\<close>

lemma tick_unentered:
  assumes "distinct (map row_key db)"
    and "check_and_post_incidents world_at db = (entries, db', fin)"
    and "i < length (select_enabled db)" and "\<not> i < length entries"
    and "config = select_enabled db ! i"
  shows "select_one (guild_id config) (service config) db' = Some config"
proof -
  let ?cs = "select_enabled db"
  from assms(2) have rc: "run_configs world_at 0 ?cs db = (entries, db', fin)"
    by (simp add: check_and_post_incidents_def)
  have dist: "distinct (map row_key ?cs)" using assms(1) by (rule distinct_select_enabled)
  have "row_key config \<notin> row_key ` set (take (length entries) ?cs)"
  proof
    assume "row_key config \<in> row_key ` set (take (length entries) ?cs)"
    then obtain c where c: "c \<in> set (take (length entries) ?cs)" "row_key c = row_key config"
      by auto
    then obtain k where k: "k < length (take (length entries) ?cs)"
      "take (length entries) ?cs ! k = c" by (auto simp: in_set_conv_nth)
    then have "k < length entries" "k < length ?cs" "?cs ! k = c" by simp_all
    with assms(3,4,5) c(2) distinct_keys_nth [OF dist, of k i] show False by simp
  qed
  then have "select_one (guild_id config) (service config) db' =
             select_one (guild_id config) (service config) db"
    using run_configs_select_unentered [OF rc] by (simp add: row_key_def)
  with select_one_member [OF assms(1)] select_enabled_member(1) [OF assms(3)] assms(5)
  show ?thesis by simp
qed

text \<open>
  Claim C2. Let the table have one row per key and let \<open>config\<close> be the enabled row at
  place \<open>i\<close> of the selection. If the newest incident id fetched for it in a tick equals
  its marker, the iteration for it, when the tick reaches it, consists of the three reads
  alone: no POST is made, and the row of its key after the tick is \<open>config\<close>
  unchanged. Over two consecutive ticks in which the fetch for it gives the same snapshot,
  the second tick processes the row of the same key at the same place, and the two
  iterations together contain at most one POST answered 204: once a delivery is
  accepted, the marker is the newest id and the next tick makes no POST.
\<close>

theorem check_and_post_incidents_idempotent:
  assumes "distinct (map row_key db)"
    and "check_and_post_incidents world1 db = (entries1, db1, fin1)"
    and "check_and_post_incidents world2 db1 = (entries2, db2, fin2)"
    and "i < length (select_enabled db)"
    and "config = select_enabled db ! i"
    and "get_service_data (w_fetch (world1 i)) (service config) = (urls, Some data)"
    and "get_service_data (w_fetch (world2 i)) (service config) = (urls, Some data)"
    and "sd_incidents data = latest # others"
  shows "(inc_id latest = last_incident_id config \<longrightarrow>
            (i < length entries1 \<longrightarrow> entries1 ! i = (config, map Http_get urls)) \<and>
            filter is_post (iteration_events entries1 i) = [] \<and>
            select_one (guild_id config) (service config) db1 = Some config) \<and>
         i < length (select_enabled db1) \<and>
         row_key (select_enabled db1 ! i) = row_key config \<and>
         length (filter is_accepted_post (iteration_events entries1 i)) +
         length (filter is_accepted_post (iteration_events entries2 i)) \<le> 1"
proof -
  let ?g = "guild_id config" and ?s = "service config"
  let ?config2 = "select_enabled db1 ! i"
  note fr = tick_frame [OF assms(2)]
  from fr(4) have len2: "length (select_enabled db1) = length (select_enabled db)"
    by (metis length_map)
  with assms(4) have i2: "i < length (select_enabled db1)" by simp
  have key2: "row_key ?config2 = row_key config"
    using fr(4) assms(4,5) i2 by (metis nth_map)
  have dist1: "distinct (map row_key db1)" using assms(1) fr(2) by simp
  have sel2: "select_one ?g ?s db1 = Some ?config2"
    using select_one_member [OF dist1 select_enabled_member(1) [OF i2]] key2
    by (simp add: row_key_def)
  have second: "length (filter is_accepted_post (iteration_events entries2 i)) \<le> 1"
  proof (cases "i < length entries2")
    case True
    from tick_iteration [OF dist1 assms(3) True refl] obtain dbi evs res where
      "process_config (world2 i) ?config2 dbi = (evs, res)" "entries2 ! i = (?config2, evs)"
      by blast
    with process_config_one_post(2) True show ?thesis by (simp add: iteration_events_def)
  next
    case False
    then show ?thesis by (simp add: iteration_events_def)
  qed
  have first: "(inc_id latest = last_incident_id config \<longrightarrow>
                 (i < length entries1 \<longrightarrow> entries1 ! i = (config, map Http_get urls)) \<and>
                 filter is_post (iteration_events entries1 i) = [] \<and>
                 select_one ?g ?s db1 = Some config) \<and>
               (filter is_accepted_post (iteration_events entries1 i) = [] \<or>
                length (filter is_accepted_post (iteration_events entries1 i)) = 1 \<and>
                select_one ?g ?s db1 = Some (config\<lparr>last_incident_id := inc_id latest\<rparr>))"
  proof (cases "i < length entries1")
    case False
    with tick_unentered [OF assms(1,2,4) False assms(5)] show ?thesis
      by (simp add: iteration_events_def)
  next
    case True
    from tick_iteration [OF assms(1,2) True assms(5)] obtain dbi evs res where
      pc: "process_config (world1 i) config dbi = (evs, res)"
      and ent: "entries1 ! i = (config, evs)"
      and sel': "select_one ?g ?s db1 =
                   (case res of Inl e \<Rightarrow> Some config | Inr dbi' \<Rightarrow> select_one ?g ?s dbi')"
      and seli: "select_one ?g ?s dbi = Some config"
      by blast
    from True ent have it: "iteration_events entries1 i = evs" by (simp add: iteration_events_def)
    show ?thesis
    proof (cases "inc_id latest = last_incident_id config")
      case same: True
      from process_config_same_incident [OF assms(6,8) same, of dbi] pc
      have "evs = map Http_get urls" "res = Inr dbi" by simp_all
      with same ent it sel' seli show ?thesis
        by (simp add: is_post_def is_accepted_post_def filter_map comp_def)
    next
      case differ: False
      note new = process_config_new_incident [OF assms(6,8) differ, of dbi]
      show ?thesis
      proof (cases "create_status_embed (w_now (world1 i)) (service config) data")
        case (Inl e)
        with new pc have "evs = map Http_get urls" by simp
        with differ it show ?thesis by (simp add: is_accepted_post_def filter_map comp_def)
      next
        case (Inr status_embed)
        show ?thesis
        proof (cases "w_post (world1 i) = Post_status 204")
          case True
          with new pc Inr have
            "evs = map Http_get urls @
               [Http_post (webhook_url config) (webhook_payload config status_embed)
                  (Post_status 204),
                Sql_update (inc_id latest) ?g ?s]"
            "res = Inr (update_last_incident (inc_id latest) ?g ?s dbi)"
            by simp_all
          with differ it sel' seli show ?thesis
            by (simp add: is_accepted_post_def filter_map comp_def select_one_update_same)
        next
          case False
          with new pc Inr have
            "evs = map Http_get urls @
               [Http_post (webhook_url config) (webhook_payload config status_embed)
                  (w_post (world1 i))]"
            by simp
          with differ it False show ?thesis
            by (simp add: is_accepted_post_def filter_map comp_def)
        qed
      qed
    qed
  qed
  have total: "length (filter is_accepted_post (iteration_events entries1 i)) +
               length (filter is_accepted_post (iteration_events entries2 i)) \<le> 1"
  proof (cases "filter is_accepted_post (iteration_events entries1 i) = []")
    case True
    with second show ?thesis by simp
  next
    case False
    with first have one: "length (filter is_accepted_post (iteration_events entries1 i)) = 1"
      and marked: "select_one ?g ?s db1 = Some (config\<lparr>last_incident_id := inc_id latest\<rparr>)"
      by simp_all
    from marked sel2 have c2: "?config2 = config\<lparr>last_incident_id := inc_id latest\<rparr>" by simp
    have "filter is_accepted_post (iteration_events entries2 i) = []"
    proof (cases "i < length entries2")
      case False
      then show ?thesis by (simp add: iteration_events_def)
    next
      case True
      from tick_iteration [OF dist1 assms(3) True refl] obtain dbi evs res where
        pc: "process_config (world2 i) ?config2 dbi = (evs, res)"
        and ent: "entries2 ! i = (?config2, evs)"
        by blast
      have f2: "get_service_data (w_fetch (world2 i)) (service ?config2) = (urls, Some data)"
        using assms(7) c2 by simp
      have same: "inc_id latest = last_incident_id ?config2" using c2 by simp
      from process_config_same_incident [OF f2 assms(8) same, of dbi] pc
      have "evs = map Http_get urls" by simp
      with True ent show ?thesis
        by (simp add: iteration_events_def is_accepted_post_def filter_map comp_def)
    qed
    with one show ?thesis by simp
  qed
  from first i2 key2 total show ?thesis by blast
qed


lemma example_tick_notified:
  "check_and_post_incidents (\<lambda>i. world_accepting) example_db_notified =
     ([(notified_row, map Http_get vercel_urls)], example_db_notified, Completed)"
proof -
  have f: "get_service_data (w_fetch world_accepting) (service notified_row) =
             (vercel_urls, Some example_data)"
    using example_fetch by (simp add: world_accepting_def example_row_def notified_row_def)
  have i: "sd_incidents example_data = example_incident # []" by (simp add: example_data_def)
  have n: "inc_id example_incident = last_incident_id notified_row"
    by (simp add: example_incident_def notified_row_def)
  have s: "select_enabled example_db_notified = [notified_row]"
    by (simp add: select_enabled_def example_db_notified_def notified_row_def example_row_def
          disabled_row_def)
  show ?thesis
    by (simp add: check_and_post_incidents_def s process_config_same_incident [OF f i n])
qed

lemma example_tick_accepting_notified:
  "check_and_post_incidents (\<lambda>i. world_accepting) example_db =
     ([(example_row,
        map Http_get vercel_urls @
          [example_post (Post_status 204), Sql_update (Some ''inc-42'') 1 ''vercel''])],
      example_db_notified, Completed)"
  by (simp add: example_tick_accepting example_db_notified_def notified_row_def)

text \<open>
  The theorem on the example table after a notification of "inc-42" (the ids are equal,
  no POST), and on the example table before it followed by that table (one accepted
  POST in the first tick, none in the second).
\<close>

theorem check_and_post_incidents_idempotent_witness:
  "distinct (map row_key example_db_notified) \<and>
   notified_row = select_enabled example_db_notified ! 0 \<and>
   inc_id example_incident = last_incident_id notified_row \<and>
   check_and_post_incidents (\<lambda>i. world_accepting) example_db_notified =
     ([(notified_row, map Http_get vercel_urls)], example_db_notified, Completed) \<and>
   filter is_post (iteration_events [(notified_row, map Http_get vercel_urls)] 0) = [] \<and>
   select_one (guild_id notified_row) (service notified_row) example_db_notified =
     Some notified_row \<and>
   distinct (map row_key example_db) \<and>
   example_row = select_enabled example_db ! 0 \<and>
   length (filter is_accepted_post
             (iteration_events
                (fst (check_and_post_incidents (\<lambda>i. world_accepting) example_db)) 0)) +
   length (filter is_accepted_post
             (iteration_events
                (fst (check_and_post_incidents (\<lambda>i. world_accepting) example_db_notified)) 0))
     \<le> 1"
proof -
  have d: "distinct (map row_key example_db_notified)"
    by (simp add: example_db_notified_def notified_row_def row_key_def example_row_def
          disabled_row_def)
  have s: "select_enabled example_db_notified = [notified_row]"
    by (simp add: select_enabled_def example_db_notified_def notified_row_def example_row_def
          disabled_row_def)
  then have s0: "notified_row = select_enabled example_db_notified ! 0"
    and l0: "0 < length (select_enabled example_db_notified)" by simp_all
  have f: "get_service_data (w_fetch ((\<lambda>i. world_accepting) 0)) (service notified_row) =
             (vercel_urls, Some example_data)"
    using example_fetch by (simp add: world_accepting_def example_row_def notified_row_def)
  have i: "sd_incidents example_data = example_incident # []" by (simp add: example_data_def)
  have n: "inc_id example_incident = last_incident_id notified_row"
    by (simp add: example_incident_def notified_row_def)
  have a: "filter is_post (iteration_events [(notified_row, map Http_get vercel_urls)] 0) = [] \<and>
           select_one (guild_id notified_row) (service notified_row) example_db_notified =
             Some notified_row"
    using check_and_post_incidents_idempotent
            [OF d example_tick_notified example_tick_notified l0 s0 f f i] n
    by simp
  have e0: "example_row = select_enabled example_db ! 0"
    and el: "0 < length (select_enabled example_db)" by (simp_all add: example_select)
  have fe: "get_service_data (w_fetch ((\<lambda>i. world_accepting) 0)) (service example_row) =
             (vercel_urls, Some example_data)"
    using example_fetch by (simp add: world_accepting_def example_row_def)
  have b: "length (filter is_accepted_post
             (iteration_events
                (fst (check_and_post_incidents (\<lambda>i. world_accepting) example_db)) 0)) +
           length (filter is_accepted_post
             (iteration_events
                (fst (check_and_post_incidents (\<lambda>i. world_accepting) example_db_notified)) 0))
             \<le> 1"
    using check_and_post_incidents_idempotent
            [OF example_distinct example_tick_accepting_notified example_tick_notified el e0 fe fe i]
    by (simp add: example_tick_accepting_notified example_tick_notified)
  from a b d s0 n example_tick_notified example_distinct e0 show ?thesis by simp
qed

text \<open>
  Claim C3. In a tick over a table with one row per key, the iterations entered are for
  the first rows of the selection \<open>enabled = 1\<close>, in its order: every request of the
  tick belongs to an iteration whose row is enabled, and no iteration, hence no fetch, is
  for a row that is not. The table keeps its length, every row with \<open>enabled\<close> other than
  \<open>1\<close> stands after the tick at its place with all its columns as before, and it is still
  the row found for its key.
\<close>

theorem check_and_post_incidents_skips_disabled:
  assumes "distinct (map row_key db)"
    and "check_and_post_incidents world_at db = (entries, db', fin)"
  shows "map fst entries = take (length entries) (select_enabled db) \<and>
         (\<forall>c \<in> fst ` set entries. c \<in> set db \<and> enabled c = 1) \<and>
         length db' = length db \<and>
         (\<forall>k < length db. enabled (db ! k) \<noteq> 1 \<longrightarrow> db' ! k = db ! k) \<and>
         (\<forall>r \<in> set db. enabled r \<noteq> 1 \<longrightarrow>
            r \<notin> fst ` set entries \<and> r \<in> set db' \<and>
            select_one (guild_id r) (service r) db' = Some r)"
proof -
  let ?cs = "select_enabled db"
  from assms(2) have rc: "run_configs world_at 0 ?cs db = (entries, db', fin)"
    by (simp add: check_and_post_incidents_def)
  from run_configs_entries [OF rc] have ent: "map fst entries = take (length entries) ?cs"
    by simp
  have rows: "c \<in> set db \<and> enabled c = 1" if "c \<in> fst ` set entries" for c
  proof -
    from that have "c \<in> set (map fst entries)" by simp
    with ent have "c \<in> set (take (length entries) ?cs)" by simp
    then have "c \<in> set ?cs" by (rule in_set_takeD)
    then show ?thesis by (simp add: select_enabled_def)
  qed
  note fr = tick_frame [OF assms(2)]
  have dist1: "distinct (map row_key db')" using assms(1) fr(2) by simp
  have kept: "db' ! k = db ! k" if k: "k < length db" and dis: "enabled (db ! k) \<noteq> 1" for k
  proof -
    have "row_key (db ! k) \<notin> row_key ` set ?cs"
    proof
      assume "row_key (db ! k) \<in> row_key ` set ?cs"
      then obtain c where c: "c \<in> set ?cs" "row_key c = row_key (db ! k)" by auto
      then have cdb: "c \<in> set db" and cen: "enabled c = 1" by (simp_all add: select_enabled_def)
      from assms(1) have "inj_on row_key (set db)" by (simp add: distinct_map)
      with cdb c(2) k have "c = db ! k" by (auto dest: inj_onD)
      with cen dis show False by simp
    qed
    with run_configs_frame [OF rc] k show ?thesis by simp
  qed
  have disabled: "r \<notin> fst ` set entries \<and> r \<in> set db' \<and>
                  select_one (guild_id r) (service r) db' = Some r"
    if r: "r \<in> set db" and dis: "enabled r \<noteq> 1" for r
  proof -
    from r obtain k where k: "k < length db" "db ! k = r" by (auto simp: in_set_conv_nth)
    with kept [of k] dis have "db' ! k = r" by simp
    with k(1) fr(1) have mem: "r \<in> set db'" by (metis nth_mem)
    from rows [of r] dis have "r \<notin> fst ` set entries" by auto
    with mem select_one_member [OF dist1 mem] show ?thesis by simp
  qed
  from ent rows fr(1) kept disabled show ?thesis by blast
qed

text \<open>The theorem on the example table, whose first row is disabled.\<close>

theorem check_and_post_incidents_skips_disabled_witness:
  "distinct (map row_key example_db) \<and>
   disabled_row \<in> set example_db \<and> enabled disabled_row \<noteq> 1 \<and>
   0 < length example_db \<and> example_db ! 0 = disabled_row \<and>
   map fst (fst (check_and_post_incidents (\<lambda>i. world_accepting) example_db)) = [example_row] \<and>
   disabled_row \<notin> fst ` set (fst (check_and_post_incidents (\<lambda>i. world_accepting) example_db)) \<and>
   fst (snd (check_and_post_incidents (\<lambda>i. world_accepting) example_db)) ! 0 = disabled_row \<and>
   select_one 2 ''vercel'' (fst (snd (check_and_post_incidents (\<lambda>i. world_accepting) example_db))) =
     Some disabled_row"
proof -
  have m: "disabled_row \<in> set example_db" "0 < length example_db" "example_db ! 0 = disabled_row"
    by (simp_all add: example_db_def)
  have e: "enabled disabled_row \<noteq> 1" "guild_id disabled_row = 2"
    "service disabled_row = ''vercel''"
    by (simp_all add: disabled_row_def)
  note t = check_and_post_incidents_skips_disabled [OF example_distinct example_tick_accepting]
  from t have "map fst [(example_row,
        map Http_get vercel_urls @
          [example_post (Post_status 204), Sql_update (Some ''inc-42'') 1 ''vercel''])] =
      take 1 (select_enabled example_db)" by simp
  moreover from t m(1) e(1) have "disabled_row \<notin> fst ` set [(example_row,
        map Http_get vercel_urls @
          [example_post (Post_status 204), Sql_update (Some ''inc-42'') 1 ''vercel''])] \<and>
      select_one (guild_id disabled_row) (service disabled_row)
        [disabled_row, example_row\<lparr>last_incident_id := Some ''inc-42''\<rparr>] = Some disabled_row"
    by blast
  moreover have "[disabled_row, example_row\<lparr>last_incident_id := Some ''inc-42''\<rparr>] ! 0 = example_db ! 0"
  proof -
    from t have "\<forall>k < length example_db. enabled (example_db ! k) \<noteq> 1 \<longrightarrow>
        [disabled_row, example_row\<lparr>last_incident_id := Some ''inc-42''\<rparr>] ! k = example_db ! k"
      by blast
    from this [rule_format, OF m(2)] m(3) e(1) show ?thesis by simp
  qed
  ultimately show ?thesis
    using m e example_distinct by (simp add: example_tick_accepting example_select)
qed

subsection \<open>The subscription commands\<close>

lemma map_key_update_nth:
  assumes "distinct (map row_key db)" and "k < length db"
  shows "map (\<lambda>x. if row_key x = row_key (db ! k) then h x else x) db = db[k := h (db ! k)]"
proof (rule nth_equalityI)
  show "length (map (\<lambda>x. if row_key x = row_key (db ! k) then h x else x) db) =
        length (db[k := h (db ! k)])" by simp
next
  fix j
  assume "j < length (map (\<lambda>x. if row_key x = row_key (db ! k) then h x else x) db)"
  then have j: "j < length db" by simp
  show "map (\<lambda>x. if row_key x = row_key (db ! k) then h x else x) db ! j = db[k := h (db ! k)] ! j"
  proof (cases "j = k")
    case True
    with j show ?thesis by simp
  next
    case False
    with distinct_keys_nth [OF assms(1) j assms(2)] j assms(2) show ?thesis by simp
  qed
qed

lemma update_enabled_nth:
  assumes "distinct (map row_key db)" and "k < length db"
  shows "update_enabled v (guild_id (db ! k)) (service (db ! k)) db = db[k := (db ! k)\<lparr>enabled := v\<rparr>]"
proof -
  have "update_enabled v (guild_id (db ! k)) (service (db ! k)) db =
        map (\<lambda>x. if row_key x = row_key (db ! k) then x\<lparr>enabled := v\<rparr> else x) db"
    by (simp add: update_enabled_def row_key_def)
  with map_key_update_nth [OF assms] show ?thesis by simp
qed

lemma select_one_None:
  "select_one g s db = None \<longleftrightarrow> (\<forall>r \<in> set db. row_key r \<noteq> (g, s))"
  by (auto simp: select_one_def find_None_iff row_key_def)

text \<open>
  Claim C10. On a table with one row per key, \<open>toggle_webhook\<close> called with the
  permission on the key of the row at place \<open>k\<close> returns the table with that one row
  replaced by itself with \<open>enabled\<close> negated (\<open>1\<close> for \<open>0\<close>, \<open>0\<close> for anything else): the
  other six columns of the row and every other row are as before. When no row has the
  key, the table is returned as it is and the response is the not-found message. Without
  the permission nothing is written either.
\<close>

theorem toggle_webhook_frame:
  assumes "distinct (map row_key db)"
  shows "(\<forall>k < length db. guild_id (db ! k) = guild \<and> service (db ! k) = service_name \<longrightarrow>
            snd (toggle_webhook True guild service_name db) =
              db[k := (db ! k)\<lparr>enabled := (if enabled (db ! k) = 0 then 1 else 0)\<rparr>] \<and>
            fst (toggle_webhook True guild service_name db) =
              [Respond (check_mark @ '' '' @ capitalize service_name @ '' webhook has been '' @
                        (if enabled (db ! k) = 0 then ''enabled'' else ''disabled'')) False]) \<and>
         ((\<forall>r \<in> set db. row_key r \<noteq> (guild, service_name)) \<longrightarrow>
            toggle_webhook True guild service_name db =
              ([Respond (cross_mark @ '' No webhook found for '' @ capitalize service_name) False],
               db)) \<and>
         snd (toggle_webhook False guild service_name db) = db"
proof (intro conjI allI impI)
  fix k
  assume k: "k < length db" and key: "guild_id (db ! k) = guild \<and> service (db ! k) = service_name"
  then have "db ! k \<in> set db" by simp
  from select_one_member [OF assms this] key
  have sel: "select_one guild service_name db = Some (db ! k)" by simp
  from update_enabled_nth [OF assms k] key
  have upd: "update_enabled v guild service_name db = db[k := (db ! k)\<lparr>enabled := v\<rparr>]" for v
    by simp
  show "snd (toggle_webhook True guild service_name db) =
          db[k := (db ! k)\<lparr>enabled := (if enabled (db ! k) = 0 then 1 else 0)\<rparr>]"
    by (simp add: toggle_webhook_def sel Let_def upd)
  show "fst (toggle_webhook True guild service_name db) =
          [Respond (check_mark @ '' '' @ capitalize service_name @ '' webhook has been '' @
                    (if enabled (db ! k) = 0 then ''enabled'' else ''disabled'')) False]"
    by (simp add: toggle_webhook_def sel Let_def)
next
  assume "\<forall>r \<in> set db. row_key r \<noteq> (guild, service_name)"
  then have "select_one guild service_name db = None" by (simp add: select_one_None)
  then show "toggle_webhook True guild service_name db =
      ([Respond (cross_mark @ '' No webhook found for '' @ capitalize service_name) False], db)"
    by (simp add: toggle_webhook_def)
next
  show "snd (toggle_webhook False guild service_name db) = db"
    by (simp add: toggle_webhook_def)
qed

text \<open>The theorem on the example table: the enabled row toggled, and a key without a row.\<close>

theorem toggle_webhook_frame_witness:
  "distinct (map row_key example_db) \<and> 1 < length example_db \<and>
   guild_id (example_db ! 1) = 1 \<and> service (example_db ! 1) = ''vercel'' \<and>
   snd (toggle_webhook True 1 ''vercel'' example_db) =
     [disabled_row, example_row\<lparr>enabled := 0\<rparr>] \<and>
   fst (toggle_webhook True 1 ''vercel'' example_db) =
     [Respond (check_mark @ '' Vercel webhook has been disabled'') False] \<and>
   row_key disabled_row \<noteq> (1, ''netlify'') \<and> row_key example_row \<noteq> (1, ''netlify'') \<and>
   toggle_webhook True 1 ''netlify'' example_db =
     ([Respond (cross_mark @ '' No webhook found for Netlify'') False], example_db)"
proof -
  have l: "1 < length example_db" and k: "guild_id (example_db ! 1) = 1 \<and> service (example_db ! 1) = ''vercel''"
    and e: "enabled (example_db ! 1) = 1"
    by (simp_all add: example_db_def example_row_def)
  have n: "\<forall>r \<in> set example_db. row_key r \<noteq> (1, ''netlify'')"
    by (simp add: example_db_def row_key_def example_row_def disabled_row_def)
  have cap: "capitalize ''netlify'' = ''Netlify''"
    by (simp add: capitalize_def upper_char_def lower_char_def)
  note t1 = toggle_webhook_frame [OF example_distinct, of 1 "''vercel''"]
  note t2 = toggle_webhook_frame [OF example_distinct, of 1 "''netlify''"]
  from t1 l k have "snd (toggle_webhook True 1 ''vercel'' example_db) =
      example_db[1 := (example_db ! 1)\<lparr>enabled := (if enabled (example_db ! 1) = 0 then 1 else 0)\<rparr>] \<and>
      fst (toggle_webhook True 1 ''vercel'' example_db) =
      [Respond (check_mark @ '' '' @ capitalize ''vercel'' @ '' webhook has been '' @
                (if enabled (example_db ! 1) = 0 then ''enabled'' else ''disabled'')) False]"
    by blast
  then have a: "snd (toggle_webhook True 1 ''vercel'' example_db) =
       [disabled_row, example_row\<lparr>enabled := 0\<rparr>] \<and>
     fst (toggle_webhook True 1 ''vercel'' example_db) =
       [Respond (check_mark @ '' Vercel webhook has been disabled'') False]"
    using e by (simp add: example_db_def capitalize_vercel)
  from t2 n have "toggle_webhook True 1 ''netlify'' example_db =
     ([Respond (cross_mark @ '' No webhook found for '' @ capitalize ''netlify'') False], example_db)"
    by blast
  with a l k n example_distinct cap show ?thesis by (simp add: example_db_def)
qed

text \<open>The key is unique after each operation on the table.\<close>

lemma distinct_insert_or_replace:
  assumes "distinct (map row_key db)"
  shows "distinct (map row_key (insert_or_replace new db))"
  using assms by (auto simp: insert_or_replace_def distinct_map_filter)

lemma distinct_update_enabled:
  "distinct (map row_key (update_enabled v g s db)) = distinct (map row_key db)"
proof -
  have "map row_key (update_enabled v g s db) = map row_key db"
    by (simp add: update_enabled_def row_key_def)
  then show ?thesis by simp
qed

lemma distinct_delete_row:
  assumes "distinct (map row_key db)"
  shows "distinct (map row_key (delete_row g s db))"
  using assms by (simp add: delete_row_def distinct_map_filter)

lemma find_append_cases:
  "find P (xs @ ys) = (case find P xs of None \<Rightarrow> find P ys | Some x \<Rightarrow> Some x)"
  by (induction xs) auto

lemma select_one_insert_or_replace:
  "select_one (guild_id new) (service new) (insert_or_replace new db) = Some new"
proof -
  have "find (\<lambda>r. guild_id r = guild_id new \<and> service r = service new)
          (filter (\<lambda>r. row_key r \<noteq> row_key new) db) = None"
    by (auto simp: find_None_iff row_key_def)
  then show ?thesis
    by (simp add: select_one_def insert_or_replace_def find_append_cases)
qed

text \<open>
  Claim C5. When \<open>setup_webhook\<close> is called with the permission and the webhook is
  created, the table after it is the table before without the rows of the key, followed
  by the new row, whose seven columns are the values of this call: the row found for the
  key is the new row, it is the only row of the key, and when no role is given its
  \<open>ping_role_id\<close> is \<open>None\<close> whatever the old row held. One row per key is an invariant:
  it holds after \<open>setup_webhook\<close>, \<open>toggle_webhook\<close>, \<open>remove_webhook\<close> and a tick of the
  poller, however they end.
\<close>

theorem setup_webhook_replaces:
  assumes "distinct (map row_key db)"
    and "new = \<lparr>guild_id = guild, channel_id = ch_id channel, webhook_url = url,
                 service = service_name, ping_role_id = ping_role, enabled = 1,
                 last_incident_id = None\<rparr>"
    and "db' = snd (setup_webhook True (Created url) guild channel service_name ping_role db)"
  shows "db' = filter (\<lambda>r. row_key r \<noteq> (guild, service_name)) db @ [new] \<and>
         select_one guild service_name db' = Some new \<and>
         filter (\<lambda>r. row_key r = (guild, service_name)) db' = [new] \<and>
         (ping_role = None \<longrightarrow> (\<forall>r \<in> set db'. row_key r = (guild, service_name) \<longrightarrow>
                                     ping_role_id r = None)) \<and>
         distinct (map row_key db') \<and>
         distinct (map row_key (snd (setup_webhook p created guild channel service_name ping_role db))) \<and>
         distinct (map row_key (snd (toggle_webhook p guild service_name db))) \<and>
         distinct (map row_key (snd (remove_webhook p guild service_name db))) \<and>
         distinct (map row_key (fst (snd (check_and_post_incidents world_at db))))"
proof -
  have key: "row_key new = (guild, service_name)" using assms(2) by (simp add: row_key_def)
  have db': "db' = insert_or_replace new db"
    using assms(2,3) by (simp add: setup_webhook_def Let_def)
  then have 1: "db' = filter (\<lambda>r. row_key r \<noteq> (guild, service_name)) db @ [new]"
    using key by (simp add: insert_or_replace_def)
  have 2: "select_one guild service_name db' = Some new"
    using select_one_insert_or_replace [of new db] db' assms(2) by simp
  have 3: "filter (\<lambda>r. row_key r = (guild, service_name)) db' = [new]"
    unfolding 1 using key by (simp add: filter_empty_conv)
  have 4: "ping_role = None \<longrightarrow> (\<forall>r \<in> set db'. row_key r = (guild, service_name) \<longrightarrow>
                                     ping_role_id r = None)"
    unfolding 1 using assms(2) by auto
  have 5: "distinct (map row_key db')" unfolding db' using assms(1) by (rule distinct_insert_or_replace)
  have 6: "distinct (map row_key (snd (setup_webhook p created guild channel service_name ping_role db)))"
    using assms(1) distinct_insert_or_replace [OF assms(1)]
    by (cases created) (simp_all add: setup_webhook_def Let_def)
  have 7: "distinct (map row_key (snd (toggle_webhook p guild service_name db)))"
    using assms(1)
    by (simp add: toggle_webhook_def Let_def distinct_update_enabled split: option.splits)
  have 8: "distinct (map row_key (snd (remove_webhook p guild service_name db)))"
    using assms(1) distinct_delete_row [OF assms(1)] by (simp add: remove_webhook_def)
  obtain entries db2 fin where t: "check_and_post_incidents world_at db = (entries, db2, fin)"
    by (cases "check_and_post_incidents world_at db")
  from tick_frame(2) [OF t] assms(1) have 9:
    "distinct (map row_key (fst (snd (check_and_post_incidents world_at db))))"
    by (simp add: t)
  from 1 2 3 4 5 6 7 8 9 show ?thesis by blast
qed

text \<open>
  The theorem on a table whose row for the key is disabled, pings role 7 and has a marker:
  a setup without a role replaces it.
\<close>

theorem setup_webhook_replaces_witness:
  "distinct (map row_key [pinged_row, example_row]) \<and>
   ping_role_id pinged_row = Some 7 \<and> row_key pinged_row = (2, ''vercel'') \<and>
   snd (setup_webhook True (Created ''https://discord.com/api/webhooks/3/ghi'') 2 example_channel
          ''vercel'' None [pinged_row, example_row]) = [example_row, replaced_row] \<and>
   select_one 2 ''vercel'' [example_row, replaced_row] = Some replaced_row \<and>
   filter (\<lambda>r. row_key r = (2, ''vercel'')) [example_row, replaced_row] = [replaced_row] \<and>
   ping_role_id replaced_row = None \<and> last_incident_id replaced_row = None \<and>
   enabled replaced_row = 1 \<and>
   distinct (map row_key [example_row, replaced_row])"
proof -
  have d: "distinct (map row_key [pinged_row, example_row])"
    by (simp add: row_key_def pinged_row_def example_row_def)
  have n: "replaced_row = \<lparr>guild_id = 2, channel_id = ch_id example_channel,
             webhook_url = ''https://discord.com/api/webhooks/3/ghi'', service = ''vercel'',
             ping_role_id = None, enabled = 1, last_incident_id = None\<rparr>"
    by (simp add: replaced_row_def example_channel_def)
  have k: "row_key pinged_row = (2, ''vercel'')" "row_key example_row \<noteq> (2, ''vercel'')"
    "ping_role_id pinged_row = Some 7"
    by (simp_all add: row_key_def pinged_row_def example_row_def)
  from setup_webhook_replaces [OF d n refl]
  have r: "snd (setup_webhook True (Created ''https://discord.com/api/webhooks/3/ghi'') 2
              example_channel ''vercel'' None [pinged_row, example_row]) =
           filter (\<lambda>r. row_key r \<noteq> (2, ''vercel'')) [pinged_row, example_row] @ [replaced_row]"
    by blast
  then have r': "snd (setup_webhook True (Created ''https://discord.com/api/webhooks/3/ghi'') 2
              example_channel ''vercel'' None [pinged_row, example_row]) =
              [example_row, replaced_row]"
    using k by simp
  from setup_webhook_replaces [OF d n refl] r'
  have "select_one 2 ''vercel'' [example_row, replaced_row] = Some replaced_row \<and>
        filter (\<lambda>r. row_key r = (2, ''vercel'')) [example_row, replaced_row] = [replaced_row] \<and>
        distinct (map row_key [example_row, replaced_row])"
    by simp
  with d k r' show ?thesis by (simp add: replaced_row_def)
qed

subsection \<open>sendmessage\<close>

lemma send_message_loop_all_sent:
  assumes "\<forall>i \<in> set idx. outcome i = Sent"
  shows "send_message_loop outcome channel message count 0 idx (evs, sent_count, failed_count) =
           (evs @ replicate (length idx) (Channel_send (ch_id channel) (Plain message) Sent),
            sent_count + int (length idx), failed_count)"
  using assms
proof (induction idx arbitrary: evs sent_count)
  case Nil
  then show ?case by simp
next
  case (Cons i idx)
  then show ?case by (simp add: replicate_app_Cons_same)
qed

lemma send_message_loop_stops:
  assumes "\<forall>j \<in> set xs. outcome j \<noteq> Forbidden" and "outcome k = Forbidden"
  shows "filter is_send
           (fst (send_message_loop outcome channel message count delay (xs @ k # ys)
                   (evs, sent_count, failed_count))) =
         filter is_send evs @
         map (\<lambda>i. Channel_send (ch_id channel) (Plain message) (outcome i)) (xs @ [k])"
  using assms
proof (induction xs arbitrary: evs sent_count failed_count)
  case Nil
  then show ?case by (simp add: is_send_def)
next
  case (Cons x xs)
  then have x: "outcome x \<noteq> Forbidden" and rest: "\<forall>j \<in> set xs. outcome j \<noteq> Forbidden" by simp_all
  show ?case
  proof (cases "outcome x")
    case Sent
    with Cons.IH [OF rest Cons.prems(2)] show ?thesis by (simp add: is_send_def)
  next
    case Forbidden
    with x show ?thesis by simp
  next
    case (Http_exception status)
    with Cons.IH [OF rest Cons.prems(2)] show ?thesis by (simp add: is_send_def)
  next
    case Other_exception
    with Cons.IH [OF rest Cons.prems(2)] show ?thesis by (simp add: is_send_def)
  qed
qed

lemma upt_split_at:
  assumes "k < n"
  shows "[0..<n] = [0..<k] @ k # [Suc k..<n]"
proof -
  from assms have "[0..<n] = [0..<k] @ [k..<n]"
    using upt_add_eq_append [of 0 k "n - k"] by simp
  also from assms have "[k..<n] = k # [Suc k..<n]" by (rule upt_conv_Cons)
  finally show ?thesis .
qed

text \<open>
  Claim C7. For a count from 1 to 50 and a delay that is not negative: when every send
  is accepted and the delay is 0, \<open>send_message\<close> defers, sends the message \<open>count\<close>
  times with no sleep between the sends, and reports; when send \<open>k\<close> is the first that
  raises \<open>discord.Forbidden\<close>, the sends of the command are those of the iterations
  \<open>0\<close> to \<open>k\<close> and no other: the loop is left at once and the sends after \<open>k\<close> are
  never attempted.
\<close>

theorem send_message_sends:
  assumes "1 \<le> count" and "count \<le> 50" and "0 \<le> delay"
  shows "((\<forall>i < nat count. outcome i = Sent) \<and> delay = 0 \<longrightarrow>
            send_message outcome channel message count delay =
              [Defer True] @
              replicate (nat count) (Channel_send (ch_id channel) (Plain message) Sent) @
              [Followup (check_mark @ '' Sent '' @ str_int count @ ''/'' @ str_int count @
                         '' messages to '' @ channel_mention channel @
                         (if count > 1 then newline @ zap_mark @ '' Ultra-fast mode used''
                          else []))]) \<and>
         (\<forall>k < nat count. outcome k = Forbidden \<and> (\<forall>j < k. outcome j \<noteq> Forbidden) \<longrightarrow>
            filter is_send (send_message outcome channel message count delay) =
              map (\<lambda>i. Channel_send (ch_id channel) (Plain message) (outcome i)) [0..<Suc k])"
proof (intro conjI allI impI)
  assume a: "(\<forall>i < nat count. outcome i = Sent) \<and> delay = 0"
  then have "\<forall>i \<in> set [0..<nat count]. outcome i = Sent" by simp
  from send_message_loop_all_sent [OF this, of channel message count "[]" 0 0] a assms
  show "send_message outcome channel message count delay =
              [Defer True] @
              replicate (nat count) (Channel_send (ch_id channel) (Plain message) Sent) @
              [Followup (check_mark @ '' Sent '' @ str_int count @ ''/'' @ str_int count @
                         '' messages to '' @ channel_mention channel @
                         (if count > 1 then newline @ zap_mark @ '' Ultra-fast mode used''
                          else []))]"
    by (simp add: send_message_def)
next
  fix k
  assume k: "k < nat count" and f: "outcome k = Forbidden \<and> (\<forall>j < k. outcome j \<noteq> Forbidden)"
  then have pre: "\<forall>j \<in> set [0..<k]. outcome j \<noteq> Forbidden" by simp
  obtain evs sent_count failed_count where
    l: "send_message_loop outcome channel message count delay [0..<nat count] ([], 0, 0) =
          (evs, sent_count, failed_count)"
    by (cases "send_message_loop outcome channel message count delay [0..<nat count] ([], 0, 0)")
  from send_message_loop_stops [OF pre, of k channel message count delay "[Suc k..<nat count]" "[]" 0 0]
    f l upt_split_at [OF k]
  have "filter is_send evs =
          map (\<lambda>i. Channel_send (ch_id channel) (Plain message) (outcome i)) [0..<Suc k]"
    by simp
  with l assms show "filter is_send (send_message outcome channel message count delay) =
              map (\<lambda>i. Channel_send (ch_id channel) (Plain message) (outcome i)) [0..<Suc k]"
    by (simp add: send_message_def is_send_def)
qed

text \<open>
  The theorem at count 5 and delay 0: five sends and no sleep when all are accepted; two
  sends, the second refused, when sends 1 and 3 would be refused.
\<close>

theorem send_message_sends_witness:
  "(1 :: int) \<le> 5 \<and> (5 :: int) \<le> 50 \<and> (0 :: real) \<le> 0 \<and>
   send_message (\<lambda>i. Sent) example_channel ''hello'' 5 0 =
     [Defer True,
      Channel_send 30 (Plain ''hello'') Sent, Channel_send 30 (Plain ''hello'') Sent,
      Channel_send 30 (Plain ''hello'') Sent, Channel_send 30 (Plain ''hello'') Sent,
      Channel_send 30 (Plain ''hello'') Sent,
      Followup (check_mark @ '' Sent 5/5 messages to <#30>'' @ newline @ zap_mark @
                '' Ultra-fast mode used'')] \<and>
   two_refusals 1 = Forbidden \<and> two_refusals 3 = Forbidden \<and> two_refusals 0 = Sent \<and>
   filter is_send (send_message two_refusals example_channel ''hello'' 5 0) =
     [Channel_send 30 (Plain ''hello'') Sent, Channel_send 30 (Plain ''hello'') Forbidden]"
proof -
  have h: "(1 :: int) \<le> 5" "(5 :: int) \<le> 50" "(0 :: real) \<le> 0" by simp_all
  have s5: "str_int 5 = ''5''" "str_int 30 = ''30''" by (simp_all add: str_int_def str_nat.simps)
  have five: "replicate 5 x = [x, x, x, x, x]" for x :: cmd_event
    by (simp add: numeral_eq_Suc)
  from send_message_sends [OF h, of "\<lambda>i. Sent" example_channel "''hello''"]
  have "send_message (\<lambda>i. Sent) example_channel ''hello'' 5 0 =
              [Defer True] @
              replicate (nat 5) (Channel_send (ch_id example_channel) (Plain ''hello'') Sent) @
              [Followup (check_mark @ '' Sent '' @ str_int 5 @ ''/'' @ str_int 5 @
                         '' messages to '' @ channel_mention example_channel @
                         (if (5 :: int) > 1 then newline @ zap_mark @ '' Ultra-fast mode used''
                          else []))]"
    by simp
  then have a: "send_message (\<lambda>i. Sent) example_channel ''hello'' 5 0 =
     [Defer True,
      Channel_send 30 (Plain ''hello'') Sent, Channel_send 30 (Plain ''hello'') Sent,
      Channel_send 30 (Plain ''hello'') Sent, Channel_send 30 (Plain ''hello'') Sent,
      Channel_send 30 (Plain ''hello'') Sent,
      Followup (check_mark @ '' Sent 5/5 messages to <#30>'' @ newline @ zap_mark @
                '' Ultra-fast mode used'')]"
    by (simp add: five s5 channel_mention_def example_channel_def)
  have r: "two_refusals 1 = Forbidden" "two_refusals 3 = Forbidden" "two_refusals 0 = Sent"
    by (simp_all add: two_refusals_def)
  have "(1 :: nat) < nat 5 \<and> two_refusals 1 = Forbidden \<and> (\<forall>j < 1. two_refusals j \<noteq> Forbidden)"
    by (simp add: two_refusals_def)
  with send_message_sends [OF h, of two_refusals example_channel "''hello''"]
  have "filter is_send (send_message two_refusals example_channel ''hello'' 5 0) =
          map (\<lambda>i. Channel_send (ch_id example_channel) (Plain ''hello'') (two_refusals i)) [0..<Suc 1]"
    by blast
  then have b: "filter is_send (send_message two_refusals example_channel ''hello'' 5 0) =
     [Channel_send 30 (Plain ''hello'') Sent, Channel_send 30 (Plain ''hello'') Forbidden]"
    by (simp add: two_refusals_def example_channel_def)
  from a b r h show ?thesis by simp
qed

subsection \<open>multisend\<close>

lemma event_tests:
  "is_send (Channel_send c m out)" "\<not> is_send (Sleep d)" "\<not> is_send (Defer b)"
  "\<not> is_send (Followup s)" "\<not> is_send (Respond s b)"
  "is_failed_send (Channel_send c m out) = (out \<noteq> Sent)" "\<not> is_failed_send (Sleep d)"
  "\<not> is_failed_send (Defer b)" "\<not> is_failed_send (Followup s)"
  by (simp_all add: is_send_def is_failed_send_def)

lemma multi_send_loop_sends:
  assumes "multi_send_loop W g target message embed_format count delay idx (evs, s, f, ts, tf) =
             (evs', s', f', ts', tf')"
  shows "filter is_send evs' =
           filter is_send evs @
           map (\<lambda>i. Channel_send (ch_id target)
                      (multi_send_payload g message embed_format count i (sw_now (W i)))
                      (sw_outcome (W i))) idx \<and>
         tf' - int (length (filter is_failed_send evs')) =
           tf - int (length (filter is_failed_send evs))"
  using assms
proof (induction idx arbitrary: evs s f ts tf)
  case Nil
  then show ?case by simp
next
  case (Cons i idx)
  let ?send = "Channel_send (ch_id target)
                 (multi_send_payload g message embed_format count i (sw_now (W i)))
                 (sw_outcome (W i))"
  show ?case
  proof (cases "sw_outcome (W i)")
    case Sent
    with Cons.prems have
      "multi_send_loop W g target message embed_format count delay idx
         (evs @ [?send] @ (if delay > 0 \<and> int i < count - 1 then [Sleep delay] else []),
          s + 1, f, ts + 1, tf) = (evs', s', f', ts', tf')"
      by (simp add: Let_def)
    from Cons.IH [OF this] Sent show ?thesis by (simp add: event_tests)
  next
    case Forbidden
    with Cons.prems have
      "multi_send_loop W g target message embed_format count delay idx
         (evs @ [?send], s, f + 1, ts, tf + 1) = (evs', s', f', ts', tf')"
      by (simp add: Let_def)
    from Cons.IH [OF this] Forbidden show ?thesis by (simp add: event_tests)
  next
    case (Http_exception status)
    with Cons.prems have
      "multi_send_loop W g target message embed_format count delay idx
         (evs @ [?send] @ (if status = 429 then [Sleep 1] else []), s, f + 1, ts, tf + 1) =
       (evs', s', f', ts', tf')"
      by (simp add: Let_def)
    from Cons.IH [OF this] Http_exception show ?thesis by (simp add: event_tests)
  next
    case Other_exception
    with Cons.prems have
      "multi_send_loop W g target message embed_format count delay idx
         (evs @ [?send], s, f + 1, ts, tf + 1) = (evs', s', f', ts', tf')"
      by (simp add: Let_def)
    from Cons.IH [OF this] Other_exception show ?thesis by (simp add: event_tests)
  qed
qed

lemma multi_send_guilds_Cons:
  "multi_send_guilds get_guild world_at message embed_format count delay n p (gid # rest) st =
     multi_send_guilds get_guild world_at message embed_format count delay n (Suc p) rest
       (guild_step get_guild world_at message embed_format count delay n p gid st)"
  by (simp add: guild_step_def split: option.splits prod.splits)

lemma guild_step_missing:
  assumes "get_guild gid = None"
  shows "guild_step get_guild world_at message embed_format count delay n p gid st =
           st\<lparr>ms_results := AList.update gid not_found_text (ms_results st),
              ms_total_failed := ms_total_failed st + count\<rparr>"
  using assms by (simp add: guild_step_def not_found_text_def)

lemma guild_step_frame:
  "filter is_send (ms_events (guild_step get_guild world_at message embed_format count delay n p gid st)) =
     filter is_send (ms_events st) @
     (case reachable get_guild gid of
        None \<Rightarrow> []
      | Some (g, target) \<Rightarrow> guild_sends (world_at p) message embed_format count g target) \<and>
   ms_total_failed (guild_step get_guild world_at message embed_format count delay n p gid st) -
     int (length (filter is_failed_send
            (ms_events (guild_step get_guild world_at message embed_format count delay n p gid st)))) =
     ms_total_failed st - int (length (filter is_failed_send (ms_events st))) +
     (case reachable get_guild gid of None \<Rightarrow> count | Some x \<Rightarrow> 0) \<and>
   (\<forall>k. get_guild k = None \<longrightarrow>
      map_of (ms_results (guild_step get_guild world_at message embed_format count delay n p gid st)) k =
        (if k = gid then Some not_found_text else map_of (ms_results st) k))"
proof (cases "get_guild gid")
  case None
  then show ?thesis
    by (simp add: guild_step_missing reachable_def update_conv')
next
  case (Some g)
  show ?thesis
  proof (cases "find_target_channel g")
    case None
    with Some show ?thesis
      by (auto simp: guild_step_def reachable_def update_conv')
  next
    case target: (Some target)
    obtain evs s f ts tf where l:
      "multi_send_loop (world_at p) g target message embed_format count delay [0..<nat count]
         (ms_events st, 0, 0, ms_total_sent st, ms_total_failed st) = (evs, s, f, ts, tf)"
      by (metis prod_cases5)
    from multi_send_loop_sends [OF l] Some target l show ?thesis
      by (auto simp: guild_step_def reachable_def update_conv' guild_sends_def event_tests)
  qed
qed

lemma multi_send_guilds_frame:
  "filter is_send
     (ms_events (multi_send_guilds get_guild world_at message embed_format count delay n p ids st)) =
     filter is_send (ms_events st) @
     concat (map (\<lambda>(q, gid). case reachable get_guild gid of
                                None \<Rightarrow> []
                              | Some (g, target) \<Rightarrow>
                                  guild_sends (world_at q) message embed_format count g target)
               (zip [p..<p + length ids] ids)) \<and>
   ms_total_failed (multi_send_guilds get_guild world_at message embed_format count delay n p ids st) -
     int (length (filter is_failed_send
            (ms_events (multi_send_guilds get_guild world_at message embed_format count delay n p ids st)))) =
     ms_total_failed st - int (length (filter is_failed_send (ms_events st))) +
     count * int (length (filter (\<lambda>gid. reachable get_guild gid = None) ids)) \<and>
   (\<forall>k. get_guild k = None \<longrightarrow>
      map_of (ms_results (multi_send_guilds get_guild world_at message embed_format count delay n p ids st)) k =
        (if k \<in> set ids then Some not_found_text else map_of (ms_results st) k))"
proof (induction ids arbitrary: p st)
  case Nil
  then show ?case by simp
next
  case (Cons gid rest)
  let ?st1 = "guild_step get_guild world_at message embed_format count delay n p gid st"
  note step = guild_step_frame [of get_guild world_at message embed_format count delay n p gid st]
  note ih = Cons.IH [of "Suc p" ?st1]
  have z: "zip [p..<p + length (gid # rest)] (gid # rest) =
           (p, gid) # zip [Suc p..<Suc p + length rest] rest"
    by (simp del: upt_Suc add: upt_conv_Cons)
  have 1: "filter is_send
     (ms_events (multi_send_guilds get_guild world_at message embed_format count delay n p (gid # rest) st)) =
     filter is_send (ms_events st) @
     concat (map (\<lambda>(q, gid). case reachable get_guild gid of
                                None \<Rightarrow> []
                              | Some (g, target) \<Rightarrow>
                                  guild_sends (world_at q) message embed_format count g target)
               (zip [p..<p + length (gid # rest)] (gid # rest)))"
    unfolding z multi_send_guilds_Cons using ih step by simp
  have 2: "ms_total_failed (multi_send_guilds get_guild world_at message embed_format count delay n p (gid # rest) st) -
     int (length (filter is_failed_send
            (ms_events (multi_send_guilds get_guild world_at message embed_format count delay n p (gid # rest) st)))) =
     ms_total_failed st - int (length (filter is_failed_send (ms_events st))) +
     count * int (length (filter (\<lambda>gid. reachable get_guild gid = None) (gid # rest)))"
    unfolding multi_send_guilds_Cons using ih step
    by (cases "reachable get_guild gid") (simp_all add: algebra_simps)
  have 3: "\<forall>k. get_guild k = None \<longrightarrow>
      map_of (ms_results (multi_send_guilds get_guild world_at message embed_format count delay n p (gid # rest) st)) k =
        (if k \<in> set (gid # rest) then Some not_found_text else map_of (ms_results st) k)"
    unfolding multi_send_guilds_Cons using ih step by simp
  from 1 2 3 show ?case by blast
qed

lemma concat_parts_of:
  assumes "0 < k"
  shows "concat (parts_of k s) = s"
  using assms
proof (induction k s rule: parts_of.induct)
  case (1 k s)
  show ?case
  proof (cases "s = []")
    case True
    then show ?thesis by (simp add: parts_of.simps [of k "[]"])
  next
    case False
    with 1 show ?thesis by (simp add: parts_of.simps [of k s])
  qed
qed

lemma report_line:
  assumes "map_of (ms_results st) gid = Some result"
  shows "\<exists>pre post. multi_send_report st count delay =
           pre @ [CHR 0x60] @ str_int gid @ [CHR 0x60] @ '' - '' @ result @ newline @ post"
proof -
  from assms have "(gid, result) \<in> set (ms_results st)" by (rule map_of_SomeD)
  then obtain xs ys where r: "ms_results st = xs @ (gid, result) # ys" by (auto dest: split_list)
  let ?line = "\<lambda>(gid, result). [CHR 0x60] @ str_int gid @ [CHR 0x60] @ '' - '' @ result @ newline"
  let ?head = "chart_mark @ '' **Multi-Server Send Results:**'' @ newline @
     ''Total sent: '' @ str_int (ms_total_sent st) @ '' | Total failed: '' @
       str_int (ms_total_failed st) @ newline @ newline"
  let ?tail = "if delay = 0 \<and> count > 1 then newline @ zap_mark @ '' Ultra-fast mode used'' else []"
  have "multi_send_report st count delay =
          (?head @ concat (map ?line xs)) @
          [CHR 0x60] @ str_int gid @ [CHR 0x60] @ '' - '' @ result @ newline @
          (concat (map ?line ys) @ ?tail)"
    by (simp add: multi_send_report_def r)
  then show ?thesis by blast
qed

text \<open>
  Claim C9. Let \<open>multi_send\<close> pass its checks (a count from 1 to 20, a delay that is
  not negative, an id list that parses and has at most 20 ids), and let the list contain
  an id \<open>missing\<close> that \<open>bot.get_guild\<close> does not resolve. Then the results hold for
  \<open>missing\<close> the text "Server not found or bot not in server", the report sent as
  follow-up contains the line of \<open>missing\<close> with this text, and \<open>total_failed\<close> is
  \<open>count\<close> for every id that has no guild or no channel, \<open>missing\<close> among them, plus
  the sends that raised. The sends of the command are, in the order of the list, the
  \<open>count\<close> sends to the channel of every id that has one: the ids before and after
  \<open>missing\<close> are processed as if it were not there.
\<close>

theorem multi_send_missing_server:
  assumes "1 \<le> count" and "count \<le> 20" and "0 \<le> delay"
    and "parse_guild_ids py_int server_ids = Some guild_ids" and "length guild_ids \<le> 20"
    and "missing \<in> set guild_ids" and "get_guild missing = None"
    and "st = multi_send_guilds get_guild world_at message embed_format count delay
                (length guild_ids) 0 guild_ids
                \<lparr>ms_events = [], ms_results = [], ms_total_sent = 0, ms_total_failed = 0\<rparr>"
  shows "multi_send py_int get_guild world_at server_ids message embed_format count delay =
           [Defer True] @ ms_events st @
           (if length (multi_send_report st count delay) > 2000
            then map Followup (parts_of 1900 (multi_send_report st count delay))
            else [Followup (multi_send_report st count delay)]) \<and>
         concat (parts_of 1900 (multi_send_report st count delay)) =
           multi_send_report st count delay \<and>
         map_of (ms_results st) missing =
           Some (cross_mark @ '' Server not found or bot not in server'') \<and>
         (\<exists>pre post. multi_send_report st count delay =
            pre @ [CHR 0x60] @ str_int missing @ [CHR 0x60] @ '' - '' @
            (cross_mark @ '' Server not found or bot not in server'') @ newline @ post) \<and>
         ms_total_failed st =
           count * int (length (filter (\<lambda>gid. reachable get_guild gid = None) guild_ids)) +
           int (length (filter is_failed_send (ms_events st))) \<and>
         count \<le> ms_total_failed st \<and>
         filter is_send
           (multi_send py_int get_guild world_at server_ids message embed_format count delay) =
           concat (map (\<lambda>(q, gid). case reachable get_guild gid of
                                      None \<Rightarrow> []
                                    | Some (g, target) \<Rightarrow>
                                        guild_sends (world_at q) message embed_format count g target)
                     (zip [0..<length guild_ids] guild_ids))"
proof -
  let ?report = "multi_send_report st count delay"
  note fr = multi_send_guilds_frame [of get_guild world_at message embed_format count delay
              "length guild_ids" 0 guild_ids
              "\<lparr>ms_events = [], ms_results = [], ms_total_sent = 0, ms_total_failed = 0\<rparr>",
              folded assms(8)]
  have 1: "multi_send py_int get_guild world_at server_ids message embed_format count delay =
           [Defer True] @ ms_events st @
           (if length ?report > 2000 then map Followup (parts_of 1900 ?report)
            else [Followup ?report])"
    using assms(1,2,3,4,5,8) by (simp add: multi_send_def Let_def)
  have 2: "concat (parts_of 1900 ?report) = ?report" by (rule concat_parts_of) simp
  from fr assms(6,7) have 3: "map_of (ms_results st) missing = Some not_found_text" by simp
  from report_line [OF 3] have 4: "\<exists>pre post. ?report =
            pre @ [CHR 0x60] @ str_int missing @ [CHR 0x60] @ '' - '' @ not_found_text @ newline @ post" .
  from fr have 5: "ms_total_failed st =
           count * int (length (filter (\<lambda>gid. reachable get_guild gid = None) guild_ids)) +
           int (length (filter is_failed_send (ms_events st)))"
    by simp
  have "missing \<in> set (filter (\<lambda>gid. reachable get_guild gid = None) guild_ids)"
    using assms(6,7) by (simp add: reachable_def)
  then have "1 \<le> length (filter (\<lambda>gid. reachable get_guild gid = None) guild_ids)"
    by (metis One_nat_def Suc_leI length_pos_if_in_set)
  then have "count * 1 \<le> count * int (length (filter (\<lambda>gid. reachable get_guild gid = None) guild_ids))"
    using assms(1) by (intro mult_left_mono) simp_all
  with 5 have 6: "count \<le> ms_total_failed st" by simp
  have followups: "filter is_send (map Followup xs) = []" for xs
    by (simp add: filter_empty_conv event_tests)
  from fr have "filter is_send (ms_events st) =
           concat (map (\<lambda>(q, gid). case reachable get_guild gid of
                                      None \<Rightarrow> []
                                    | Some (g, target) \<Rightarrow>
                                        guild_sends (world_at q) message embed_format count g target)
                     (zip [0..<length guild_ids] guild_ids))"
    by simp
  then have 7: "filter is_send
           (multi_send py_int get_guild world_at server_ids message embed_format count delay) =
           concat (map (\<lambda>(q, gid). case reachable get_guild gid of
                                      None \<Rightarrow> []
                                    | Some (g, target) \<Rightarrow>
                                        guild_sends (world_at q) message embed_format count g target)
                     (zip [0..<length guild_ids] guild_ids))"
    unfolding 1 by (simp add: event_tests followups)
  from 1 2 3 4 5 6 7 show ?thesis unfolding not_found_text_def by blast
qed

lemma example_parse: "parse_guild_ids py_int_digits ''1,999,2'' = Some [1, 999, 2]"
  by (simp add: parse_guild_ids_def py_int_digits_def digit_value_def)

lemma example_reachable:
  "reachable example_get_guild 1 = Some (guild_alpha, \<lparr>ch_id = 11, ch_can_send = True\<rparr>)"
  "reachable example_get_guild 999 = None"
  "reachable example_get_guild 2 = Some (guild_beta, \<lparr>ch_id = 22, ch_can_send = True\<rparr>)"
  by (simp_all add: reachable_def example_get_guild_def find_target_channel_def guild_alpha_def
        guild_beta_def)

text \<open>The theorem for the list "1,999,2", where 999 is no guild of the bot, and count 2.\<close>

theorem multi_send_missing_server_witness:
  "(1 :: int) \<le> 2 \<and> (2 :: int) \<le> 20 \<and> (0 :: real) \<le> 0 \<and>
   parse_guild_ids py_int_digits ''1,999,2'' = Some [1, 999, 2] \<and>
   length [1, 999, 2 :: int] \<le> 20 \<and> (999 :: int) \<in> set [1, 999, 2] \<and>
   example_get_guild 999 = None \<and>
   map_of (ms_results example_multi_state) 999 =
     Some (cross_mark @ '' Server not found or bot not in server'') \<and>
   2 \<le> ms_total_failed example_multi_state \<and>
   filter is_send (multi_send py_int_digits example_get_guild all_sent ''1,999,2'' ''hello'' False 2 0) =
     [Channel_send 11 (Plain ''hello'') Sent, Channel_send 11 (Plain ''hello'') Sent,
      Channel_send 22 (Plain ''hello'') Sent, Channel_send 22 (Plain ''hello'') Sent]"
proof -
  have h: "(1 :: int) \<le> 2" "(2 :: int) \<le> 20" "(0 :: real) \<le> 0" by simp_all
  have l: "length [1, 999, 2 :: int] \<le> 20" and m: "(999 :: int) \<in> set [1, 999, 2]" by simp_all
  have g: "example_get_guild 999 = None" by (simp add: example_get_guild_def)
  have len3: "length [1, 999, 2 :: int] = 3" by simp
  have s: "example_multi_state =
     multi_send_guilds example_get_guild all_sent ''hello'' False 2 0 (length [1, 999, 2 :: int]) 0
       [1, 999, 2]
       \<lparr>ms_events = [], ms_results = [], ms_total_sent = 0, ms_total_failed = 0\<rparr>"
    using example_multi_state_def by (simp only: len3)
  note t = multi_send_missing_server [OF h example_parse l m g s]
  have two: "[0..<2] = [0, 1]" by (simp add: upt_conv_Cons)
  from t have "filter is_send
      (multi_send py_int_digits example_get_guild all_sent ''1,999,2'' ''hello'' False 2 0) =
      concat (map (\<lambda>(q, gid). case reachable example_get_guild gid of
                                      None \<Rightarrow> []
                                    | Some (g, target) \<Rightarrow>
                                        guild_sends (all_sent q) ''hello'' False 2 g target)
                     (zip [0..<length [1, 999, 2 :: int]] [1, 999, 2]))"
    by blast
  then have a: "filter is_send
      (multi_send py_int_digits example_get_guild all_sent ''1,999,2'' ''hello'' False 2 0) =
     [Channel_send 11 (Plain ''hello'') Sent, Channel_send 11 (Plain ''hello'') Sent,
      Channel_send 22 (Plain ''hello'') Sent, Channel_send 22 (Plain ''hello'') Sent]"
    by (simp add: example_reachable guild_sends_def two multi_send_payload_def all_sent_def)
  from t have b: "map_of (ms_results example_multi_state) 999 =
     Some (cross_mark @ '' Server not found or bot not in server'') \<and>
     2 \<le> ms_total_failed example_multi_state"
    by blast
  from a b h l m g example_parse show ?thesis by simp
qed

subsection \<open>Owner commands\<close>

text \<open>
  The four owner commands that are in the tree answer a caller who is not the owner with
  the restricted response, and their body does not run: the result does not depend on
  \<open>callback\<close>.
\<close>

lemma owner_commands_rejected:
  assumes "command_name \<in> {''sendmessage'', ''sendembed'', ''broadcast'', ''multisend''}"
    and "user_id \<noteq> OWNER_ID"
  shows "invoke OWNER_ID callback command_name user_id = restricted_response"
  using assms
  by (auto simp: invoke_def command_tree_def is_owner_def on_app_command_error_def
        owner_commands_def restricted_response_def)

lemma owner_commands_rejected_example:
  "invoke 1 callback ''sendmessage'' 2 = restricted_response"
  using owner_commands_rejected [of "''sendmessage''" 2 1 callback] by simp

text \<open>
  Claim C6 at the command \<open>botstats\<close>. The error handler counts it among the owner
  commands and \<open>bot_stats\<close> carries the owner check, but the function is never registered
  as a command. An interaction that names it, from a caller who is not the owner, is a
  command the tree does not know: the body does not run, and the response is the general
  error message, not the restricted response.
\<close>

theorem botstats_not_registered:
  "map_of command_tree ''botstats'' = None \<and> ''botstats'' \<in> set owner_commands \<and>
   \<not> is_owner 1 2 \<and>
   invoke 1 callback ''botstats'' 2 =
     [Respond (cross_mark @ '' An error occurred while executing the command.'') True] \<and>
   invoke 1 callback ''botstats'' 2 \<noteq> restricted_response"
  by (simp add: invoke_def command_tree_def is_owner_def on_app_command_error_def
        owner_commands_def restricted_response_def)

end
